theory Spec2Isabelle
  imports Main "HOL-Library.Word" "HOL-Library.Multiset"
begin

unbundle bit_operations_syntax

section \<open>Vulkan values used by Shell.cpp\<close>

text \<open>
  Vulkan handles are opaque; \<open>VK_NULL_HANDLE\<close> is 0. A \<open>VkResult\<close> is the signed
  result code of the Vulkan headers. Sizes and indices declared \<open>uint32_t\<close> are
  \<open>32 word\<close>: comparison is unsigned and \<open>(uint32_t)-1\<close> is the word \<open>- 1\<close>.
\<close>

type_synonym handle = nat
type_synonym VkResult = int
type_synonym u32 = "32 word"

abbreviation (input) VK_NULL_HANDLE :: handle where "VK_NULL_HANDLE \<equiv> 0"
abbreviation (input) VK_SUCCESS :: VkResult where "VK_SUCCESS \<equiv> 0"
abbreviation (input) VK_ERROR_DEVICE_LOST :: VkResult where "VK_ERROR_DEVICE_LOST \<equiv> - 4"
abbreviation (input) VK_SUBOPTIMAL_KHR :: VkResult where "VK_SUBOPTIMAL_KHR \<equiv> 1000001003"
abbreviation (input) VK_ERROR_OUT_OF_DATE_KHR :: VkResult where "VK_ERROR_OUT_OF_DATE_KHR \<equiv> - 1000001004"

abbreviation (input) INT_MAX :: int where "INT_MAX \<equiv> 2147483647"

abbreviation (input) VK_PRESENT_MODE_IMMEDIATE_KHR :: u32 where "VK_PRESENT_MODE_IMMEDIATE_KHR \<equiv> 0"
abbreviation (input) VK_PRESENT_MODE_MAILBOX_KHR :: u32 where "VK_PRESENT_MODE_MAILBOX_KHR \<equiv> 1"
abbreviation (input) VK_PRESENT_MODE_FIFO_KHR :: u32 where "VK_PRESENT_MODE_FIFO_KHR \<equiv> 2"

abbreviation (input) VK_IMAGE_USAGE_COLOR_ATTACHMENT_BIT :: u32 where
  "VK_IMAGE_USAGE_COLOR_ATTACHMENT_BIT \<equiv> 16"
abbreviation (input) VK_COMPOSITE_ALPHA_OPAQUE_BIT_KHR :: u32 where
  "VK_COMPOSITE_ALPHA_OPAQUE_BIT_KHR \<equiv> 1"
abbreviation (input) VK_COMPOSITE_ALPHA_INHERIT_BIT_KHR :: u32 where
  "VK_COMPOSITE_ALPHA_INHERIT_BIT_KHR \<equiv> 8"

datatype VkSharingMode = VK_SHARING_MODE_EXCLUSIVE | VK_SHARING_MODE_CONCURRENT

record VkExtent2D =
  width :: u32
  height :: u32

record VkSurfaceCapabilitiesKHR =
  minImageCount :: u32
  maxImageCount :: u32
  currentExtent :: VkExtent2D
  minImageExtent :: VkExtent2D
  maxImageExtent :: VkExtent2D
  supportedTransforms :: u32
  currentTransform :: u32
  supportedCompositeAlpha :: u32
  supportedUsageFlags :: u32

record VkSwapchainCreateInfoKHR =
  sci_surface :: handle
  sci_minImageCount :: u32
  sci_imageFormat :: nat
  sci_imageColorSpace :: nat
  sci_imageExtent :: VkExtent2D
  sci_imageArrayLayers :: u32
  sci_imageUsage :: u32
  sci_imageSharingMode :: VkSharingMode
  sci_queueFamilyIndices :: "u32 list"
  sci_preTransform :: u32
  sci_compositeAlpha :: u32
  sci_presentMode :: u32
  sci_clipped :: bool
  sci_oldSwapchain :: handle

section \<open>Errors and the log of external calls\<close>

text \<open>
  Every way a function of Shell.cpp stops early is a value of \<open>error\<close>: the
  \<open>std::runtime_error\<close> of \<open>vk::assert_success\<close>, a failed \<open>assert\<close>, an index
  outside the back-buffer vector, \<open>front()\<close> of an empty queue, a negative size
  handed to \<open>std::vector::resize\<close>, and an \<open>int\<close> addition that leaves the range
  of \<open>int\<close>.
\<close>

datatype error =
    VkFailure VkResult
  | AssertionFailed string
  | OutOfRange
  | EmptyQueue
  | LengthError
  | SignedOverflow

text \<open>
  The calls that leave the Shell (Vulkan entry points and the hooks of the frame
  processor) are recorded, in program order, in a log carried by the state. The log
  is what the ordering properties are stated on.
\<close>

datatype event =
    CreateSemaphore handle
  | CreateFence handle
  | DestroySemaphore handle handle
  | DestroyFence handle handle
  | DeviceWaitIdle handle
  | DestroyDevice handle
  | DestroySwapchainKHR handle handle
  | DestroySurfaceKHR handle handle
  | GetPhysicalDeviceSurfaceCapabilitiesKHR handle handle
  | GetPhysicalDeviceSurfacePresentModesKHR handle handle
  | CreateSwapchainKHR handle VkSwapchainCreateInfoKHR
  | AcquireNextImageKHR handle handle handle handle
  | WaitForFences handle handle
  | ResetFences handle handle
  | QueuePresentKHR handle handle handle u32
  | QueueSubmit handle handle handle
  | attach_swapchain
  | detach_swapchain
  | detach_shell
  | on_frame bool

section \<open>AcquireBuffer and BackBuffer\<close>

text \<open>
  The queue and the back buffers hold \<open>AcquireBuffer*\<close>. A pointer is modelled by
  the address of the object (\<open>ab_addr\<close>, which is its identity) together with the
  fields of the object, which do not change after \<open>Create\<close>. A null pointer is
  \<open>None\<close>.
\<close>

record AcquireBuffer =
  ab_addr :: nat
  ab_semaphore :: handle
  ab_fence :: handle
  ab_dev :: handle

datatype BackBufferState =
  BACK_BUFFER_INIT | BACK_BUFFER_PREPARE | BACK_BUFFER_IN_SWAPCHAIN | BACK_BUFFER_CANCELED

record BackBuffer =
  bb_imageIndex :: u32
  bb_acquireBuffer :: "AcquireBuffer option"
  bb_renderSemaphore :: handle
  bb_state :: BackBufferState
  bb_dev :: handle

text \<open>Modelled from the spec: \<open>vk::assert_success\<close> of VkCodecUtils/Helpers.h, which is
  not among the sources. Every result other than success ends the operation with an
  error carrying the result code ("all other errors propagate to the process boundary
  as fatal termination with a descriptive message").\<close>

definition assert_success :: "VkResult \<Rightarrow> error + VkResult" where
  "assert_success res = (if res \<noteq> VK_SUCCESS then Inl (VkFailure res) else Inr res)"

text \<open>\<open>Shell::AcquireBuffer::AcquireBuffer()\<close> at a given address.\<close>

definition AcquireBuffer_ctor :: "nat \<Rightarrow> AcquireBuffer" where
  "AcquireBuffer_ctor a =
     \<lparr>ab_addr = a, ab_semaphore = VK_NULL_HANDLE, ab_fence = VK_NULL_HANDLE,
      ab_dev = VK_NULL_HANDLE\<rparr>"

text \<open>\<open>Shell::AcquireBuffer::Create\<close>. The two pairs are what the driver answers to
  \<open>vkCreateSemaphore\<close> and \<open>vkCreateFence\<close>: the result code and the handle written.\<close>

definition AcquireBuffer_Create ::
  "handle \<Rightarrow> VkResult \<times> handle \<Rightarrow> VkResult \<times> handle \<Rightarrow> AcquireBuffer
     \<Rightarrow> error + (AcquireBuffer \<times> event list)" where
  "AcquireBuffer_Create dev' sem fen ab =
     (let ab1 = ab\<lparr>ab_dev := dev'\<rparr> in
      case assert_success (fst sem) of
        Inl e \<Rightarrow> Inl e
      | Inr _ \<Rightarrow>
         (let ab2 = ab1\<lparr>ab_semaphore := snd sem\<rparr> in
          case assert_success (fst fen) of
            Inl e \<Rightarrow> Inl e
          | Inr _ \<Rightarrow>
              Inr (ab2\<lparr>ab_fence := snd fen\<rparr>, [CreateSemaphore dev', CreateFence dev'])))"

text \<open>\<open>Shell::AcquireBuffer::~AcquireBuffer\<close>: the calls it makes.\<close>

definition AcquireBuffer_dtor :: "AcquireBuffer \<Rightarrow> event list" where
  "AcquireBuffer_dtor ab =
     (if ab_semaphore ab \<noteq> VK_NULL_HANDLE
      then [DestroySemaphore (ab_dev ab) (ab_semaphore ab)] else []) @
     (if ab_fence ab \<noteq> VK_NULL_HANDLE
      then [DestroyFence (ab_dev ab) (ab_fence ab)] else [])"

text \<open>\<open>Shell::BackBuffer::BackBuffer()\<close>.\<close>

definition BackBuffer_ctor :: BackBuffer where
  "BackBuffer_ctor =
     \<lparr>bb_imageIndex = 0, bb_acquireBuffer = None, bb_renderSemaphore = VK_NULL_HANDLE,
      bb_state = BACK_BUFFER_INIT, bb_dev = VK_NULL_HANDLE\<rparr>"

text \<open>\<open>Shell::BackBuffer::Create\<close>.\<close>

definition BackBuffer_Create ::
  "handle \<Rightarrow> VkResult \<times> handle \<Rightarrow> BackBuffer \<Rightarrow> error + (BackBuffer \<times> event list)" where
  "BackBuffer_Create dev' sem bb =
     (let bb1 = bb\<lparr>bb_dev := dev'\<rparr> in
      case assert_success (fst sem) of
        Inl e \<Rightarrow> Inl e
      | Inr _ \<Rightarrow> Inr (bb1\<lparr>bb_renderSemaphore := snd sem\<rparr>, [CreateSemaphore dev']))"

text \<open>\<open>Shell::BackBuffer::~BackBuffer\<close>: the calls it makes.\<close>

definition BackBuffer_dtor :: "BackBuffer \<Rightarrow> event list" where
  "BackBuffer_dtor bb =
     (if bb_renderSemaphore bb \<noteq> VK_NULL_HANDLE
      then [DestroySemaphore (bb_dev bb) (bb_renderSemaphore bb)] else []) @
     (case bb_acquireBuffer bb of None \<Rightarrow> [] | Some ab \<Rightarrow> AcquireBuffer_dtor ab)"

text \<open>Modelled from the spec: the inline members of \<open>Shell::BackBuffer\<close> declared in
  Shell.h, which is not among the sources. \<open>SetAcquireBuffer\<close> "swaps in the token as
  the entry's current AcquireToken and returns whatever was previously attached"; the
  entry records the image index and enters the prepare state (\<open>INIT \<rightarrow> ACQUIRED\<close>,
  "back to ACQUIRED on next acquire of this index").\<close>

definition SetAcquireBuffer ::
  "u32 \<Rightarrow> AcquireBuffer \<Rightarrow> BackBuffer \<Rightarrow> AcquireBuffer option \<times> BackBuffer" where
  "SetAcquireBuffer imageIndex acquireBuf bb =
     (bb_acquireBuffer bb,
      bb\<lparr>bb_imageIndex := imageIndex, bb_acquireBuffer := Some acquireBuf,
         bb_state := BACK_BUFFER_PREPARE\<rparr>)"

text \<open>Modelled from the spec: \<open>GetAcquireSemaphore\<close> of Shell.h is the semaphore of the
  attached token, and the null handle when no token is attached.\<close>

definition GetAcquireSemaphore :: "BackBuffer \<Rightarrow> handle" where
  "GetAcquireSemaphore bb =
     (case bb_acquireBuffer bb of None \<Rightarrow> VK_NULL_HANDLE | Some ab \<Rightarrow> ab_semaphore ab)"

text \<open>Modelled from the spec: the state accessors of Shell.h. The prepare state is the
  state "between successful acquisition and successful submission for display".\<close>

definition isInPrepareState :: "BackBuffer \<Rightarrow> bool" where
  "isInPrepareState bb = (bb_state bb = BACK_BUFFER_PREPARE)"

definition setBufferCanceled :: "BackBuffer \<Rightarrow> BackBuffer" where
  "setBufferCanceled bb = bb\<lparr>bb_state := BACK_BUFFER_CANCELED\<rparr>"

definition setBufferInSwapchain :: "BackBuffer \<Rightarrow> BackBuffer" where
  "setBufferInSwapchain bb = bb\<lparr>bb_state := BACK_BUFFER_IN_SWAPCHAIN\<rparr>"

section \<open>Settings and the Shell state\<close>

record Settings =
  back_buffer_count :: int
  no_present :: bool
  vsync :: bool

text \<open>
  The fields of \<open>ctx_\<close> that the swapchain and back-buffer code reads or writes. The
  queue \<open>acquireBuffers_\<close> is a list with its front at the head. \<open>heap_next\<close> is the
  address the next \<open>new AcquireBuffer()\<close> returns; \<open>trace\<close> is the log of external
  calls made so far.
\<close>

record Context =
  vk_instance :: handle
  physical_dev :: handle
  dev :: handle
  surface :: handle
  format_format :: nat
  format_colorSpace :: nat
  swapchain :: handle
  extent :: VkExtent2D
  frameProcessor_queue_family :: u32
  present_queue_family :: u32
  frameProcessor_queue :: handle
  present_queue :: handle
  video_queue :: handle
  backBuffers :: "BackBuffer list"
  acquireBuffers :: "AcquireBuffer list"
  currentBackBuffer :: u32
  acquiredFrameId :: "64 word"
  heap_next :: nat
  trace :: "event list"

definition emit :: "event list \<Rightarrow> Context \<Rightarrow> Context" where
  "emit es st = st\<lparr>trace := trace st @ es\<rparr>"

text \<open>Modelled from the spec: \<open>GetCurrentBackBuffer\<close> of Shell.h, the entry of the
  registry at \<open>currentBackBuffer_\<close>; "bounds-checked; out-of-range index is a
  programming error".\<close>

definition GetCurrentBackBuffer :: "Context \<Rightarrow> error + BackBuffer" where
  "GetCurrentBackBuffer st =
     (if unat (currentBackBuffer st) < length (backBuffers st)
      then Inr (backBuffers st ! unat (currentBackBuffer st))
      else Inl OutOfRange)"

section \<open>Back-buffer creation and destruction\<close>

text \<open>
  What the driver answers during \<open>create_back_buffers\<close>: for the i-th BackBuffer the
  result and handle of its \<open>vkCreateSemaphore\<close>, for the i-th AcquireBuffer those of
  its \<open>vkCreateSemaphore\<close> and \<open>vkCreateFence\<close>.
\<close>

record create_env =
  render_sem :: "nat \<Rightarrow> VkResult \<times> handle"
  acquire_sem :: "nat \<Rightarrow> VkResult \<times> handle"
  acquire_fence :: "nat \<Rightarrow> VkResult \<times> handle"

text \<open>\<open>std::vector::resize(n)\<close> called with an \<open>int\<close>. A negative value converts
  to a size beyond \<open>max_size()\<close> and throws. A smaller size destroys the elements cut
  off. A larger size appends default-constructed entries; the capacity of the registry
  is taken to be its size (as it is after the one resize that fills an empty
  registry), so growing moves the registry to new storage: the entries are copied
  and the originals destroyed, which runs \<open>~BackBuffer\<close> on each of them while the
  copies keep the same handles and token pointers.\<close>

definition vector_resize ::
  "int \<Rightarrow> BackBuffer list \<Rightarrow> error + (BackBuffer list \<times> event list)" where
  "vector_resize n xs =
     (if n < 0 then Inl LengthError
      else if nat n < length xs
      then Inr (take (nat n) xs, concat (map BackBuffer_dtor (drop (nat n) xs)))
      else if nat n = length xs then Inr (xs, [])
      else Inr (xs @ replicate (nat n - length xs) BackBuffer_ctor,
                concat (map BackBuffer_dtor xs)))"

text \<open>The range-for loop of \<open>create_back_buffers\<close> (lines 453-455).\<close>

fun create_each ::
  "handle \<Rightarrow> (nat \<Rightarrow> VkResult \<times> handle) \<Rightarrow> nat \<Rightarrow> BackBuffer list
     \<Rightarrow> error + (BackBuffer list \<times> event list)" where
  "create_each d r i [] = Inr ([], [])"
| "create_each d r i (b # bs) =
     (case BackBuffer_Create d (r i) b of
        Inl e \<Rightarrow> Inl e
      | Inr (b', es) \<Rightarrow>
         (case create_each d r (Suc i) bs of
            Inl e \<Rightarrow> Inl e
          | Inr (bs', es') \<Rightarrow> Inr (b' # bs', es @ es')))"

text \<open>The counting loop of \<open>create_back_buffers\<close> (lines 458-462), from \<open>i\<close> up to
  \<open>n = count + 1\<close>.\<close>

function new_acquire_buffers :: "create_env \<Rightarrow> int \<Rightarrow> int \<Rightarrow> Context \<Rightarrow> error + Context" where
  "new_acquire_buffers env i n st =
     (if i < n then
        (case AcquireBuffer_Create (dev st) (acquire_sem env (nat i)) (acquire_fence env (nat i))
                (AcquireBuffer_ctor (heap_next st)) of
           Inl e \<Rightarrow> Inl e
         | Inr (pAcquireBuffer, es) \<Rightarrow>
             new_acquire_buffers env (i + 1) n
               (emit es (st\<lparr>heap_next := Suc (heap_next st),
                             acquireBuffers := acquireBuffers st @ [pAcquireBuffer]\<rparr>)))
      else Inr st)"
  by pat_completeness auto
termination
  by (relation "measure (\<lambda>(env, i, n, st). nat (n - i))") auto

declare new_acquire_buffers.simps [simp del]

text \<open>\<open>back_buffer_count\<close> is an \<open>int\<close>; the two additions \<open>back_buffer_count + 1\<close>
  and \<open>count + 1\<close> are checked against \<open>INT_MAX\<close>, where the source overflows.\<close>

definition create_back_buffers :: "Settings \<Rightarrow> create_env \<Rightarrow> Context \<Rightarrow> error + Context" where
  "create_back_buffers settings env st =
     (if back_buffer_count settings + 1 > INT_MAX then Inl SignedOverflow
      else
       (let count = back_buffer_count settings + 1 in
        case vector_resize count (backBuffers st) of
          Inl e \<Rightarrow> Inl e
        | Inr (bbs, es0) \<Rightarrow>
           (case create_each (dev st) (render_sem env) 0 bbs of
              Inl e \<Rightarrow> Inl e
            | Inr (bbs', es1) \<Rightarrow>
               if count + 1 > INT_MAX then Inl SignedOverflow
               else
                (case new_acquire_buffers env 0 (count + 1)
                        (emit (es0 @ es1) (st\<lparr>backBuffers := bbs'\<rparr>)) of
                   Inl e \<Rightarrow> Inl e
                 | Inr st' \<Rightarrow> Inr (st'\<lparr>currentBackBuffer := 0\<rparr>)))))"

text \<open>The while loop of \<open>destroy_back_buffers\<close>: each queued AcquireBuffer is popped
  and deleted.\<close>

fun delete_queue :: "AcquireBuffer list \<Rightarrow> event list" where
  "delete_queue [] = []"
| "delete_queue (pAcquireBuffer # q) = AcquireBuffer_dtor pAcquireBuffer @ delete_queue q"

definition destroy_back_buffers :: "Context \<Rightarrow> Context" where
  "destroy_back_buffers st =
     (let st1 = emit (concat (map BackBuffer_dtor (backBuffers st))) (st\<lparr>backBuffers := []\<rparr>);
          st2 = emit (delete_queue (acquireBuffers st1)) (st1\<lparr>acquireBuffers := []\<rparr>)
      in st2\<lparr>currentBackBuffer := 0\<rparr>)"

section \<open>Swapchain lifecycle\<close>

definition destroy_swapchain :: "Context \<Rightarrow> Context" where
  "destroy_swapchain st =
     (let st1 =
            (if swapchain st \<noteq> VK_NULL_HANDLE
             then (emit [detach_swapchain, DestroySwapchainKHR (dev st) (swapchain st)] st)
                    \<lparr>swapchain := VK_NULL_HANDLE\<rparr>
             else st)
      in (emit [DestroySurfaceKHR (vk_instance st1) (surface st1)] st1)
           \<lparr>surface := VK_NULL_HANDLE\<rparr>)"

definition destroy_context :: "Context \<Rightarrow> Context" where
  "destroy_context st =
     (if dev st = VK_NULL_HANDLE then st
      else
        (let st1 = emit [DeviceWaitIdle (dev st)] st;
             st2 = destroy_swapchain st1;
             st3 = emit [detach_shell] st2;
             st4 = destroy_back_buffers st3;
             st5 = st4\<lparr>frameProcessor_queue := VK_NULL_HANDLE, present_queue := VK_NULL_HANDLE,
                       video_queue := VK_NULL_HANDLE\<rparr>;
             st6 = emit [DestroyDevice (dev st5)] st5
         in st6\<lparr>dev := VK_NULL_HANDLE\<rparr>))"

text \<open>
  What the platform answers during \<open>resize_swapchain\<close>: the result and contents of the
  capability query, the present modes, and the result and handle of
  \<open>vkCreateSwapchainKHR\<close>.
\<close>

record resize_env =
  caps_res :: VkResult
  caps :: VkSurfaceCapabilitiesKHR
  modes :: "u32 list"
  create_res :: VkResult
  new_swapchain :: handle

text \<open>Lines 521-536: the extent the swapchain is to have.\<close>

definition resize_extent :: "VkSurfaceCapabilitiesKHR \<Rightarrow> u32 \<Rightarrow> u32 \<Rightarrow> VkExtent2D" where
  "resize_extent c width_hint height_hint =
     (let e0 = currentExtent c;
          e1 = (if width e0 = - 1 then e0\<lparr>width := width_hint, height := height_hint\<rparr> else e0);
          e2 = (if width e1 < width (minImageExtent c)
                then e1\<lparr>width := width (minImageExtent c)\<rparr>
                else if width e1 > width (maxImageExtent c)
                then e1\<lparr>width := width (maxImageExtent c)\<rparr>
                else e1);
          e3 = (if height e2 < height (minImageExtent c)
                then e2\<lparr>height := height (minImageExtent c)\<rparr>
                else if height e2 > height (maxImageExtent c)
                then e2\<lparr>height := height (maxImageExtent c)\<rparr>
                else e2)
      in e3)"

text \<open>Lines 540-544.\<close>

definition resize_image_count :: "Settings \<Rightarrow> VkSurfaceCapabilitiesKHR \<Rightarrow> u32" where
  "resize_image_count settings c =
     (let image_count = (word_of_int (back_buffer_count settings) :: u32) in
      if image_count < minImageCount c then minImageCount c
      else if image_count > maxImageCount c then maxImageCount c
      else image_count)"

text \<open>Lines 556-563: the first reported mode that is the wanted one, FIFO otherwise.\<close>

definition resize_present_mode :: "Settings \<Rightarrow> u32 list \<Rightarrow> u32" where
  "resize_present_mode settings ms =
     (case find (\<lambda>m. (vsync settings \<and> m = VK_PRESENT_MODE_MAILBOX_KHR) \<or>
                      (\<not> vsync settings \<and> m = VK_PRESENT_MODE_IMMEDIATE_KHR)) ms of
        Some m \<Rightarrow> m
      | None \<Rightarrow> VK_PRESENT_MODE_FIFO_KHR)"

text \<open>Lines 549-551 and 565-590.\<close>

definition resize_swapchain_info ::
  "Settings \<Rightarrow> resize_env \<Rightarrow> VkExtent2D \<Rightarrow> Context \<Rightarrow> VkSwapchainCreateInfoKHR" where
  "resize_swapchain_info settings env ext st =
     (let composite_alpha =
            (if supportedCompositeAlpha (caps env) AND VK_COMPOSITE_ALPHA_INHERIT_BIT_KHR \<noteq> 0
             then VK_COMPOSITE_ALPHA_INHERIT_BIT_KHR else VK_COMPOSITE_ALPHA_OPAQUE_BIT_KHR);
          concurrent = (frameProcessor_queue_family st \<noteq> present_queue_family st)
      in \<lparr>sci_surface = surface st,
          sci_minImageCount = resize_image_count settings (caps env),
          sci_imageFormat = format_format st,
          sci_imageColorSpace = format_colorSpace st,
          sci_imageExtent = ext,
          sci_imageArrayLayers = 1,
          sci_imageUsage = VK_IMAGE_USAGE_COLOR_ATTACHMENT_BIT,
          sci_imageSharingMode =
            (if concurrent then VK_SHARING_MODE_CONCURRENT else VK_SHARING_MODE_EXCLUSIVE),
          sci_queueFamilyIndices =
            (if concurrent then [frameProcessor_queue_family st, present_queue_family st] else []),
          sci_preTransform = currentTransform (caps env),
          sci_compositeAlpha = composite_alpha,
          sci_presentMode = resize_present_mode settings (modes env),
          sci_clipped = True,
          sci_oldSwapchain = swapchain st\<rparr>)"

definition resize_swapchain ::
  "Settings \<Rightarrow> resize_env \<Rightarrow> u32 \<Rightarrow> u32 \<Rightarrow> Context \<Rightarrow> error + Context" where
  "resize_swapchain settings env width_hint height_hint st =
     (let st1 = emit [GetPhysicalDeviceSurfaceCapabilitiesKHR (physical_dev st) (surface st)] st in
      case assert_success (caps_res env) of
        Inl e \<Rightarrow> Inl e
      | Inr _ \<Rightarrow>
         (let ext = resize_extent (caps env) width_hint height_hint in
          if width (extent st1) = width ext \<and> height (extent st1) = height ext then Inr st1
          else if supportedUsageFlags (caps env) AND VK_IMAGE_USAGE_COLOR_ATTACHMENT_BIT = 0
          then Inl (AssertionFailed ''supportedUsageFlags'')
          else if supportedTransforms (caps env) AND currentTransform (caps env) = 0
          then Inl (AssertionFailed ''supportedTransforms'')
          else if supportedCompositeAlpha (caps env) AND
                    (VK_COMPOSITE_ALPHA_OPAQUE_BIT_KHR OR VK_COMPOSITE_ALPHA_INHERIT_BIT_KHR) = 0
          then Inl (AssertionFailed ''supportedCompositeAlpha'')
          else
            (let st2 = emit [GetPhysicalDeviceSurfacePresentModesKHR (physical_dev st1) (surface st1)] st1;
                 swapchain_info = resize_swapchain_info settings env ext st2;
                 st3 = emit [CreateSwapchainKHR (dev st2) swapchain_info] st2
             in case assert_success (create_res env) of
                  Inl e \<Rightarrow> Inl e
                | Inr _ \<Rightarrow>
                   (let st4 = st3\<lparr>swapchain := new_swapchain env, extent := ext\<rparr>;
                        st5 = (if sci_oldSwapchain swapchain_info \<noteq> VK_NULL_HANDLE
                               then emit [detach_swapchain, DeviceWaitIdle (dev st4),
                                          DestroySwapchainKHR (dev st4)
                                            (sci_oldSwapchain swapchain_info)] st4
                               else st4)
                    in Inr (emit [attach_swapchain] st5)))))"

section \<open>Acquire and present\<close>

text \<open>
  What the driver answers during \<open>acquire_back_buffer\<close>: the result of
  \<open>vkAcquireNextImageKHR\<close> and the image index it writes, and the results of
  \<open>vkWaitForFences\<close> and \<open>vkResetFences\<close>.
\<close>

record acquire_env =
  acquire_res :: VkResult
  acquire_index :: u32
  wait_res :: VkResult
  reset_res :: VkResult

text \<open>Lines 621-643, the part of \<open>acquire_back_buffer\<close> after the early return.
  The queue holds only pointers returned by \<open>new\<close> or displaced from a back buffer,
  so \<open>acquireBuf != nullptr\<close> holds of every front element; \<open>front()\<close> of an empty
  queue is the error \<open>EmptyQueue\<close>.\<close>

definition acquire_next :: "acquire_env \<Rightarrow> Context \<Rightarrow> error + Context" where
  "acquire_next env st =
     (case acquireBuffers st of
        [] \<Rightarrow> Inl EmptyQueue
      | acquireBuf # rest \<Rightarrow>
         (let st1 = emit [AcquireNextImageKHR (dev st) (swapchain st)
                            (ab_semaphore acquireBuf) (ab_fence acquireBuf)] st in
          case assert_success (acquire_res env) of
            Inl e \<Rightarrow> Inl e
          | Inr _ \<Rightarrow>
             (let imageIndex = acquire_index env in
              if \<not> unat imageIndex < length (backBuffers st1)
              then Inl (AssertionFailed ''imageIndex'')
              else
                (let back = backBuffers st1 ! unat imageIndex;
                     st2 = emit [WaitForFences (dev st1) (ab_fence acquireBuf)] st1 in
                 case assert_success (wait_res env) of
                   Inl e \<Rightarrow> Inl e
                 | Inr _ \<Rightarrow>
                    (let st3 = emit [ResetFences (dev st2) (ab_fence acquireBuf)] st2 in
                     case assert_success (reset_res env) of
                       Inl e \<Rightarrow> Inl e
                     | Inr _ \<Rightarrow>
                        (let (oldAcquireBuffer, back') = SetAcquireBuffer imageIndex acquireBuf back;
                             st4 = st3\<lparr>currentBackBuffer := imageIndex,
                                       backBuffers := (backBuffers st3)[unat imageIndex := back'],
                                       acquireBuffers := rest\<rparr>;
                             st5 = (case oldAcquireBuffer of
                                      None \<Rightarrow> st4
                                    | Some old \<Rightarrow>
                                        st4\<lparr>acquireBuffers := acquireBuffers st4 @ [old]\<rparr>)
                         in Inr (st5\<lparr>acquiredFrameId := acquiredFrameId st5 + 1\<rparr>)))))))"

definition acquire_back_buffer ::
  "Settings \<Rightarrow> acquire_env \<Rightarrow> bool \<Rightarrow> Context \<Rightarrow> error + Context" where
  "acquire_back_buffer settings env trainFrame st =
     (if no_present settings then
        (case GetCurrentBackBuffer st of
           Inl e \<Rightarrow> Inl e
         | Inr cur \<Rightarrow>
             if GetAcquireSemaphore cur \<noteq> VK_NULL_HANDLE then Inr st
             else acquire_next env st)
      else acquire_next env st)"

text \<open>What the driver answers during \<open>present_back_buffer\<close>: the result of
  \<open>vkQueuePresentKHR\<close>, and of the \<open>vkQueueSubmit\<close> of \<open>fake_present\<close>.\<close>

record present_env =
  present_res :: VkResult
  submit_res :: VkResult

definition fake_present :: "Settings \<Rightarrow> present_env \<Rightarrow> Context \<Rightarrow> error + Context" where
  "fake_present settings env st =
     (case GetCurrentBackBuffer st of
        Inl e \<Rightarrow> Inl e
      | Inr back \<Rightarrow>
          if \<not> isInPrepareState back then Inl (AssertionFailed ''isInPrepareState'')
          else if \<not> no_present settings then Inl (AssertionFailed ''no_present'')
          else
            (let st1 = emit [QueueSubmit (frameProcessor_queue st) (bb_renderSemaphore back)
                               (GetAcquireSemaphore back)] st in
             case assert_success (submit_res env) of
               Inl e \<Rightarrow> Inl e
             | Inr _ \<Rightarrow> Inr st1))"

definition present_back_buffer ::
  "Settings \<Rightarrow> present_env \<Rightarrow> bool \<Rightarrow> Context \<Rightarrow> error + Context" where
  "present_back_buffer settings env trainFrame st =
     (case GetCurrentBackBuffer st of
        Inl e \<Rightarrow> Inl e
      | Inr back \<Rightarrow>
          if \<not> isInPrepareState back then Inl (AssertionFailed ''isInPrepareState'')
          else
            (let st1 = emit [on_frame trainFrame] st in
             if no_present settings then fake_present settings env st1
             else
               (let imageIndex = bb_imageIndex back;
                    st2 = emit [QueuePresentKHR (present_queue st1) (swapchain st1)
                                  (bb_renderSemaphore back) imageIndex] st1;
                    res = present_res env;
                    cur = unat (currentBackBuffer st2)
                in if res = VK_ERROR_OUT_OF_DATE_KHR
                   then Inr (st2\<lparr>backBuffers := (backBuffers st2)[cur := setBufferCanceled back]\<rparr>)
                   else Inr (st2\<lparr>backBuffers := (backBuffers st2)[cur := setBufferInSwapchain back]\<rparr>))))"

section \<open>Sequences of calls\<close>

datatype step =
    Acquire acquire_env bool
  | Present present_env bool

fun do_step :: "Settings \<Rightarrow> step \<Rightarrow> Context \<Rightarrow> error + Context" where
  "do_step settings (Acquire env trainFrame) st = acquire_back_buffer settings env trainFrame st"
| "do_step settings (Present env trainFrame) st = present_back_buffer settings env trainFrame st"

fun run :: "Settings \<Rightarrow> step list \<Rightarrow> Context \<Rightarrow> error + Context" where
  "run settings [] st = Inr st"
| "run settings (x # xs) st =
     (case do_step settings x st of
        Inl e \<Rightarrow> Inl e
      | Inr st' \<Rightarrow> run settings xs st')"

text \<open>One acquire/present cycle per pair of driver answers.\<close>

fun cycles :: "(acquire_env \<times> present_env) list \<Rightarrow> step list" where
  "cycles [] = []"
| "cycles ((a, p) # rest) = Acquire a False # Present p False # cycles rest"

text \<open>The tokens attached to back buffers, in registry order.\<close>

definition borrowed :: "Context \<Rightarrow> AcquireBuffer list" where
  "borrowed st = List.map_filter bb_acquireBuffer (backBuffers st)"

section \<open>Notions the properties are stated with\<close>

text \<open>The spec's words for C7: a value clamped into the range from \<open>lo\<close> to \<open>hi\<close>.\<close>

definition clamp_u32 :: "u32 \<Rightarrow> u32 \<Rightarrow> u32 \<Rightarrow> u32" where
  "clamp_u32 lo hi x = max lo (min hi x)"

text \<open>\<open>occurs_in_order xs ys\<close>: the events \<open>xs\<close> occur in the log \<open>ys\<close> in this
  order (other events may lie between them).\<close>

fun occurs_in_order :: "event list \<Rightarrow> event list \<Rightarrow> bool" where
  "occurs_in_order [] ys = True"
| "occurs_in_order (x # xs) [] = False"
| "occurs_in_order (x # xs) (y # ys) =
     (if x = y then occurs_in_order xs ys else occurs_in_order (x # xs) ys)"

text \<open>The image extent of the swapchain created last in a log, if one was created.\<close>

fun created_extent :: "event list \<Rightarrow> VkExtent2D option" where
  "created_extent [] = None"
| "created_extent (e # es) =
     (case created_extent es of
        Some x \<Rightarrow> Some x
      | None \<Rightarrow> (case e of CreateSwapchainKHR d info \<Rightarrow> Some (sci_imageExtent info) | _ \<Rightarrow> None))"

text \<open>The log entries that are image acquisitions.\<close>

fun is_acquire_event :: "event \<Rightarrow> bool" where
  "is_acquire_event (AcquireNextImageKHR d s a f) = True"
| "is_acquire_event e = False"

text \<open>All tokens of the context: those queued, then those attached to back buffers.\<close>

definition tokens :: "Context \<Rightarrow> AcquireBuffer list" where
  "tokens st = acquireBuffers st @ borrowed st"

section \<open>A concrete run\<close>

text \<open>
  A context as \<open>create_context\<close> leaves it before \<open>create_back_buffers\<close>, a driver
  that succeeds with fresh handles, and the states a first frame goes through. They
  are the inputs at which the theorems below are instantiated.
\<close>

definition example_settings :: Settings where
  "example_settings = \<lparr>back_buffer_count = 2, no_present = False, vsync = True\<rparr>"

definition example_headless :: Settings where
  "example_headless = \<lparr>back_buffer_count = 2, no_present = True, vsync = True\<rparr>"

definition example_ctx :: Context where
  "example_ctx =
     \<lparr>vk_instance = 1, physical_dev = 2, dev = 3, surface = 4,
      format_format = 44, format_colorSpace = 0, swapchain = VK_NULL_HANDLE,
      extent = \<lparr>width = - 1, height = - 1\<rparr>,
      frameProcessor_queue_family = 0, present_queue_family = 0,
      frameProcessor_queue = 5, present_queue = 6, video_queue = VK_NULL_HANDLE,
      backBuffers = [], acquireBuffers = [], currentBackBuffer = 0,
      acquiredFrameId = 0, heap_next = 1, trace = []\<rparr>"

definition example_create_env :: create_env where
  "example_create_env =
     \<lparr>render_sem = (\<lambda>i. (VK_SUCCESS, 100 + i)),
      acquire_sem = (\<lambda>i. (VK_SUCCESS, 200 + i)),
      acquire_fence = (\<lambda>i. (VK_SUCCESS, 300 + i))\<rparr>"

definition example_acquire_env :: "VkResult \<Rightarrow> u32 \<Rightarrow> acquire_env" where
  "example_acquire_env res i =
     \<lparr>acquire_res = res, acquire_index = i, wait_res = VK_SUCCESS, reset_res = VK_SUCCESS\<rparr>"

definition example_present_env :: "VkResult \<Rightarrow> present_env" where
  "example_present_env res = \<lparr>present_res = res, submit_res = VK_SUCCESS\<rparr>"

definition example_resize_env :: "VkExtent2D \<Rightarrow> handle \<Rightarrow> resize_env" where
  "example_resize_env cur h =
     \<lparr>caps_res = VK_SUCCESS,
      caps = \<lparr>minImageCount = 2, maxImageCount = 8, currentExtent = cur,
               minImageExtent = \<lparr>width = 1, height = 1\<rparr>,
               maxImageExtent = \<lparr>width = 640, height = 4096\<rparr>,
               supportedTransforms = 1, currentTransform = 1,
               supportedCompositeAlpha = 1, supportedUsageFlags = 16\<rparr>,
      modes = [VK_PRESENT_MODE_FIFO_KHR, VK_PRESENT_MODE_MAILBOX_KHR],
      create_res = VK_SUCCESS, new_swapchain = h\<rparr>"

text \<open>The value of a run that is known to succeed.\<close>

definition the_state :: "Context \<Rightarrow> error + Context \<Rightarrow> Context" where
  "the_state d r = (case r of Inl _ \<Rightarrow> d | Inr st \<Rightarrow> st)"

definition example_created :: Context where
  "example_created =
     the_state example_ctx (create_back_buffers example_settings example_create_env example_ctx)"

definition example_resized :: Context where
  "example_resized =
     the_state example_ctx
       (resize_swapchain example_settings
          (example_resize_env \<lparr>width = - 1, height = - 1\<rparr> 7) 800 600 example_created)"

definition example_acquired :: Context where
  "example_acquired =
     the_state example_ctx
       (acquire_back_buffer example_settings (example_acquire_env VK_SUCCESS 1) False
          example_resized)"

definition example_rebuilt :: Context where
  "example_rebuilt =
     the_state example_ctx
       (resize_swapchain example_settings
          (example_resize_env \<lparr>width = 320, height = 200\<rparr> 9) 0 0 example_acquired)"

definition example_five :: "(acquire_env \<times> present_env) list" where
  "example_five =
     map (\<lambda>i. (example_acquire_env VK_SUCCESS i, example_present_env VK_SUCCESS)) [0, 1, 2, 0, 1]"

definition example_after_five :: Context where
  "example_after_five =
     the_state example_ctx (run example_settings (cycles example_five) example_resized)"

definition example_headless_steps :: "step list" where
  "example_headless_steps =
     [Present (example_present_env VK_SUCCESS) False,
      Acquire (example_acquire_env VK_SUCCESS 2) False,
      Present (example_present_env VK_SUCCESS) False,
      Acquire (example_acquire_env VK_SUCCESS 0) False,
      Present (example_present_env VK_SUCCESS) False]"

definition example_headless_end :: Context where
  "example_headless_end =
     the_state example_ctx (run example_headless example_headless_steps example_acquired)"

definition example_reacquired :: Context where
  "example_reacquired =
     the_state example_ctx
       (acquire_back_buffer example_settings (example_acquire_env VK_SUCCESS 1) False
          example_acquired)"

section \<open>Basic facts\<close>

lemma emit_simps [simp]:
  "trace (emit es st) = trace st @ es"
  "backBuffers (emit es st) = backBuffers st"
  "acquireBuffers (emit es st) = acquireBuffers st"
  "currentBackBuffer (emit es st) = currentBackBuffer st"
  "acquiredFrameId (emit es st) = acquiredFrameId st"
  "swapchain (emit es st) = swapchain st"
  "surface (emit es st) = surface st"
  "extent (emit es st) = extent st"
  "dev (emit es st) = dev st"
  "vk_instance (emit es st) = vk_instance st"
  "physical_dev (emit es st) = physical_dev st"
  "heap_next (emit es st) = heap_next st"
  "frameProcessor_queue (emit es st) = frameProcessor_queue st"
  "present_queue (emit es st) = present_queue st"
  by (simp_all add: emit_def)

lemma emit_emit: "emit es2 (emit es1 st) = emit (es1 @ es2) st"
  by (simp add: emit_def)

lemma emit_Nil [simp]: "emit [] st = st"
  by (simp add: emit_def)

lemma GetCurrentBackBuffer_emit [simp]:
  "GetCurrentBackBuffer (emit es st) = GetCurrentBackBuffer st"
  by (simp add: GetCurrentBackBuffer_def)

section \<open>Presentation\<close>

text \<open>C2. With presentation enabled and the current BackBuffer in the prepare state,
  \<open>present_back_buffer\<close> returns, and the current BackBuffer is then in the state
  CANCELED when the present call reported the surface out of date, and in the state
  IN_SWAPCHAIN for every other result; nothing else of the entry changes.\<close>

theorem present_back_buffer_transition:
  assumes "\<not> no_present settings"
    and "GetCurrentBackBuffer st = Inr back"
    and "isInPrepareState back"
  shows "\<exists>st'. present_back_buffer settings env trainFrame st = Inr st'
           \<and> GetCurrentBackBuffer st' =
               Inr (back\<lparr>bb_state := (if present_res env = VK_ERROR_OUT_OF_DATE_KHR
                                       then BACK_BUFFER_CANCELED else BACK_BUFFER_IN_SWAPCHAIN)\<rparr>)
           \<and> currentBackBuffer st' = currentBackBuffer st
           \<and> acquireBuffers st' = acquireBuffers st"
  using assms
  by (auto simp: present_back_buffer_def GetCurrentBackBuffer_def Let_def
        setBufferCanceled_def setBufferInSwapchain_def split: if_splits)

lemma example_acquired_current:
  "GetCurrentBackBuffer example_acquired =
     Inr \<lparr>bb_imageIndex = 1,
          bb_acquireBuffer = Some \<lparr>ab_addr = 1, ab_semaphore = 200, ab_fence = 300, ab_dev = 3\<rparr>,
          bb_renderSemaphore = 101, bb_state = BACK_BUFFER_PREPARE, bb_dev = 3\<rparr>"
  by code_simp

theorem present_back_buffer_transition_witness:
  "\<not> no_present example_settings
   \<and> (\<exists>back. GetCurrentBackBuffer example_acquired = Inr back \<and> isInPrepareState back
        \<and> bb_state back = BACK_BUFFER_PREPARE
        \<and> (\<exists>st'. present_back_buffer example_settings
                    (example_present_env VK_ERROR_OUT_OF_DATE_KHR) False example_acquired = Inr st'
               \<and> GetCurrentBackBuffer st' = Inr (back\<lparr>bb_state := BACK_BUFFER_CANCELED\<rparr>))
        \<and> (\<exists>st'. present_back_buffer example_settings
                    (example_present_env VK_SUCCESS) False example_acquired = Inr st'
               \<and> GetCurrentBackBuffer st' = Inr (back\<lparr>bb_state := BACK_BUFFER_IN_SWAPCHAIN\<rparr>)))"
proof -
  let ?cur = "\<lparr>bb_imageIndex = 1,
          bb_acquireBuffer = Some \<lparr>ab_addr = 1, ab_semaphore = 200, ab_fence = 300, ab_dev = 3\<rparr>,
          bb_renderSemaphore = 101, bb_state = BACK_BUFFER_PREPARE, bb_dev = 3\<rparr>"
  have h1: "\<not> no_present example_settings"
    by (simp add: example_settings_def)
  have h2: "GetCurrentBackBuffer example_acquired = Inr ?cur"
    by (rule example_acquired_current)
  have h3: "isInPrepareState ?cur"
    by (simp add: isInPrepareState_def)
  from present_back_buffer_transition [OF h1 h2 h3, of "example_present_env VK_ERROR_OUT_OF_DATE_KHR" False]
    present_back_buffer_transition [OF h1 h2 h3, of "example_present_env VK_SUCCESS" False]
  show ?thesis
    using h1 h2 h3 by (auto simp: example_present_env_def)
qed

text \<open>C10. In no-present mode a call of \<open>present_back_buffer\<close> that returns has only
  called the frame hook and submitted the fake present: the back buffers (so the
  lifecycle state of the current one, which is the prepare state), the token queue and
  the current back-buffer index are unchanged. It returns whenever the current
  BackBuffer is in the prepare state and the submission succeeds.\<close>

theorem fake_present_frame:
  assumes "no_present settings"
  shows "(\<forall>st'. present_back_buffer settings env trainFrame st = Inr st' \<longrightarrow>
            (\<exists>back. GetCurrentBackBuffer st = Inr back \<and> isInPrepareState back
               \<and> GetCurrentBackBuffer st' = Inr back
               \<and> st' = emit [on_frame trainFrame,
                              QueueSubmit (frameProcessor_queue st) (bb_renderSemaphore back)
                                (GetAcquireSemaphore back)] st)
            \<and> backBuffers st' = backBuffers st
            \<and> acquireBuffers st' = acquireBuffers st
            \<and> currentBackBuffer st' = currentBackBuffer st)
       \<and> ((\<exists>back. GetCurrentBackBuffer st = Inr back \<and> isInPrepareState back)
            \<and> submit_res env = VK_SUCCESS \<longrightarrow>
            (\<exists>st'. present_back_buffer settings env trainFrame st = Inr st'))"
  using assms
  by (auto simp: present_back_buffer_def fake_present_def assert_success_def Let_def emit_emit
        split: if_splits sum.splits)

theorem fake_present_frame_witness:
  "no_present example_headless
   \<and> (\<exists>st'. present_back_buffer example_headless (example_present_env VK_SUCCESS) True
              example_acquired = Inr st'
        \<and> backBuffers st' = backBuffers example_acquired
        \<and> acquireBuffers st' = acquireBuffers example_acquired
        \<and> currentBackBuffer st' = currentBackBuffer example_acquired
        \<and> (\<exists>back. GetCurrentBackBuffer st' = Inr back \<and> bb_state back = BACK_BUFFER_PREPARE))"
proof -
  have h1: "no_present example_headless"
    by (simp add: example_headless_def)
  have h2: "submit_res (example_present_env VK_SUCCESS) = VK_SUCCESS"
    by (simp add: example_present_env_def)
  have h3: "\<exists>back. GetCurrentBackBuffer example_acquired = Inr back \<and> isInPrepareState back"
    by (simp add: example_acquired_current isInPrepareState_def)
  from fake_present_frame [OF h1, of "example_present_env VK_SUCCESS" True example_acquired] h2 h3
  show ?thesis
    using h1 by (auto simp: isInPrepareState_def)
qed

section \<open>Swapchain lifecycle\<close>

text \<open>C9. \<open>destroy_swapchain\<close> always returns. Called on the state a first call left
  (swapchain and surface handles null), it calls neither the detach hook nor
  \<open>vkDestroySwapchainKHR\<close>: its only call is \<open>vkDestroySurfaceKHR\<close> on the null
  surface handle, and no field of the context changes.\<close>

theorem destroy_swapchain_twice:
  "destroy_swapchain (destroy_swapchain st) =
     emit [DestroySurfaceKHR (vk_instance st) VK_NULL_HANDLE] (destroy_swapchain st)
   \<and> swapchain (destroy_swapchain st) = VK_NULL_HANDLE
   \<and> surface (destroy_swapchain st) = VK_NULL_HANDLE"
  by (simp add: destroy_swapchain_def emit_def Let_def)

theorem destroy_swapchain_twice_witness:
  "swapchain example_acquired = 7
   \<and> trace (destroy_swapchain example_acquired) =
       trace example_acquired @ [detach_swapchain, DestroySwapchainKHR 3 7, DestroySurfaceKHR 1 4]
   \<and> trace (destroy_swapchain (destroy_swapchain example_acquired)) =
       trace (destroy_swapchain example_acquired) @ [DestroySurfaceKHR 1 VK_NULL_HANDLE]"
proof -
  have a: "swapchain example_acquired = 7" by code_simp
  have b: "dev example_acquired = 3" by code_simp
  have c: "vk_instance example_acquired = 1" by code_simp
  have d: "surface example_acquired = 4" by code_simp
  have e: "trace (destroy_swapchain example_acquired) =
       trace example_acquired @ [detach_swapchain, DestroySwapchainKHR 3 7, DestroySurfaceKHR 1 4]"
    by (simp add: destroy_swapchain_def Let_def a b c d)
  from destroy_swapchain_twice [of example_acquired] show ?thesis
    using a c e by simp
qed

section \<open>Out-of-date surface on acquire\<close>

text \<open>C3 (the code does not do this). \<open>acquire_back_buffer\<close> hands the result of
  \<open>vkAcquireNextImageKHR\<close> to \<open>vk::assert_success\<close> and has no branch of its own for
  an out-of-date surface, unlike \<open>present_back_buffer\<close>. With presentation enabled and
  the token queue filled by \<open>create_back_buffers\<close>, an acquisition that reports
  \<open>VK_ERROR_OUT_OF_DATE_KHR\<close> ends in the same failure as one that reports
  \<open>VK_ERROR_DEVICE_LOST\<close>: no state is returned and no resize is started.\<close>


theorem acquire_out_of_date_is_fatal:
  "acquire_back_buffer example_settings (example_acquire_env VK_ERROR_OUT_OF_DATE_KHR 0) False
     example_resized = Inl (VkFailure VK_ERROR_OUT_OF_DATE_KHR)
   \<and> acquire_back_buffer example_settings (example_acquire_env VK_ERROR_DEVICE_LOST 0) False
       example_resized = Inl (VkFailure VK_ERROR_DEVICE_LOST)"
  by code_simp

section \<open>Resizing\<close>

lemma resize_extent_width:
  assumes "width (currentExtent c) = - 1"
    and "width (minImageExtent c) \<le> width (maxImageExtent c)"
  shows "width (resize_extent c w h) =
           clamp_u32 (width (minImageExtent c)) (width (maxImageExtent c)) w"
  using assms by (auto simp: resize_extent_def clamp_u32_def Let_def max_def min_def)

lemma resize_extent_height:
  assumes "width (currentExtent c) = - 1"
    and "height (minImageExtent c) \<le> height (maxImageExtent c)"
  shows "height (resize_extent c w h) =
           clamp_u32 (height (minImageExtent c)) (height (maxImageExtent c)) h"
  using assms by (auto simp: resize_extent_def clamp_u32_def Let_def max_def min_def)

lemma resize_swapchain_extent:
  assumes "resize_swapchain settings env w h st = Inr st'"
  shows "width (extent st') = width (resize_extent (caps env) w h)
       \<and> height (extent st') = height (resize_extent (caps env) w h)"
  using assms
  by (auto simp: resize_swapchain_def assert_success_def Let_def split: if_splits)

lemma resize_swapchain_info_emit:
  "resize_swapchain_info settings env x (emit es st) = resize_swapchain_info settings env x st"
  by (simp add: resize_swapchain_info_def emit_def Let_def)

lemma trace_resize_rebuild:
  assumes "resize_swapchain settings env w h st = Inr st'"
    and "extent st \<noteq> resize_extent (caps env) w h"
  shows "trace st' =
     trace st @
     [GetPhysicalDeviceSurfaceCapabilitiesKHR (physical_dev st) (surface st),
      GetPhysicalDeviceSurfacePresentModesKHR (physical_dev st) (surface st),
      CreateSwapchainKHR (dev st)
        (resize_swapchain_info settings env (resize_extent (caps env) w h) st)] @
     (if swapchain st \<noteq> VK_NULL_HANDLE
      then [detach_swapchain, DeviceWaitIdle (dev st), DestroySwapchainKHR (dev st) (swapchain st)]
      else []) @
     [attach_swapchain]"
proof -
  have ne: "\<not> (width (extent st) = width (resize_extent (caps env) w h) \<and>
                height (extent st) = height (resize_extent (caps env) w h))"
    using assms(2) by (auto intro: VkExtent2D.equality)
  have old: "sci_oldSwapchain (resize_swapchain_info settings env x st) = swapchain st" for x
    by (simp add: resize_swapchain_info_def Let_def)
  from assms(1) ne show ?thesis
    by (auto simp: resize_swapchain_def assert_success_def Let_def resize_swapchain_info_emit old split: if_splits)
qed

lemma created_extent_append:
  "created_extent (xs @ ys) =
     (case created_extent ys of Some x \<Rightarrow> Some x | None \<Rightarrow> created_extent xs)"
  by (induction xs) (simp_all split: option.splits event.splits)

lemma resize_swapchain_noop:
  assumes "resize_swapchain settings env w h st = Inr st'"
    and "extent st = resize_extent (caps env) w h"
  shows "st' = emit [GetPhysicalDeviceSurfaceCapabilitiesKHR (physical_dev st) (surface st)] st"
  using assms
  by (auto simp: resize_swapchain_def assert_success_def Let_def split: if_splits)

lemma resize_swapchain_rebuild_handle:
  assumes "resize_swapchain settings env w h st = Inr st'"
    and "extent st \<noteq> resize_extent (caps env) w h"
  shows "swapchain st' = new_swapchain env"
proof -
  have ne: "\<not> (width (extent st) = width (resize_extent (caps env) w h) \<and>
                height (extent st) = height (resize_extent (caps env) w h))"
    using assms(2) by (auto intro: VkExtent2D.equality)
  from assms(1) ne show ?thesis
    by (auto simp: resize_swapchain_def assert_success_def Let_def split: if_splits)
qed

lemma resize_swapchain_info_extent:
  "sci_imageExtent (resize_swapchain_info settings env x st) = x"
  by (simp add: resize_swapchain_info_def Let_def)

text \<open>C7. When the platform reports an undefined current extent (width
  \<open>0xFFFFFFFF\<close>) and its minimum image extent does not exceed its maximum, let the
  target be the width and height hints, each clamped into the range from the minimum
  to the maximum image extent. Every call of \<open>resize_swapchain\<close> that returns leaves
  the target as the context's extent. If the context's extent was the target already,
  the call only queries the surface and builds nothing. Otherwise it calls
  \<open>vkCreateSwapchainKHR\<close> with the target as image extent (and the previous chain as
  predecessor) and stores the new handle. So when the context holds a swapchain after
  the call, and the extent recorded before the call was that of the chain held then,
  the chain created last has the target extent.\<close>

theorem resize_swapchain_undefined_extent:
  assumes "resize_swapchain settings env width_hint height_hint st = Inr st'"
    and "width (currentExtent (caps env)) = - 1"
    and "width (minImageExtent (caps env)) \<le> width (maxImageExtent (caps env))"
    and "height (minImageExtent (caps env)) \<le> height (maxImageExtent (caps env))"
    and "target =
           \<lparr>width = clamp_u32 (width (minImageExtent (caps env)))
                      (width (maxImageExtent (caps env))) width_hint,
            height = clamp_u32 (height (minImageExtent (caps env)))
                       (height (maxImageExtent (caps env))) height_hint\<rparr>"
  shows "extent st' = target
       \<and> (extent st = target \<longrightarrow>
            st' = emit [GetPhysicalDeviceSurfaceCapabilitiesKHR (physical_dev st) (surface st)] st)
       \<and> (extent st \<noteq> target \<longrightarrow>
            swapchain st' = new_swapchain env
          \<and> sci_imageExtent (resize_swapchain_info settings env target st) = target
          \<and> trace st' =
              trace st @
              [GetPhysicalDeviceSurfaceCapabilitiesKHR (physical_dev st) (surface st),
               GetPhysicalDeviceSurfacePresentModesKHR (physical_dev st) (surface st),
               CreateSwapchainKHR (dev st) (resize_swapchain_info settings env target st)] @
              (if swapchain st \<noteq> VK_NULL_HANDLE
               then [detach_swapchain, DeviceWaitIdle (dev st),
                     DestroySwapchainKHR (dev st) (swapchain st)]
               else []) @
              [attach_swapchain])
       \<and> ((swapchain st \<noteq> VK_NULL_HANDLE \<longrightarrow> created_extent (trace st) = Some (extent st))
            \<and> swapchain st' \<noteq> VK_NULL_HANDLE \<longrightarrow>
            created_extent (trace st') = Some target)"
proof -
  let ?r = "resize_extent (caps env) width_hint height_hint"
  have r: "?r = target"
    unfolding assms(5)
    by (rule VkExtent2D.equality)
      (simp_all add: resize_extent_width [OF assms(2,3)] resize_extent_height [OF assms(2,4)])
  from resize_swapchain_extent [OF assms(1)] have e: "extent st' = ?r"
    by (auto intro: VkExtent2D.equality)
  show ?thesis
  proof (cases "extent st = ?r")
    case True
    from resize_swapchain_noop [OF assms(1) True]
    have n: "st' = emit [GetPhysicalDeviceSurfaceCapabilitiesKHR (physical_dev st) (surface st)] st" .
    then have "created_extent (trace st') = created_extent (trace st)"
      and "swapchain st' = swapchain st"
      by (simp_all add: created_extent_append)
    with True e n r show ?thesis by auto
  next
    case False
    note t = trace_resize_rebuild [OF assms(1) False]
    then have "created_extent (trace st') = Some ?r"
      by (simp add: created_extent_append resize_swapchain_info_extent)
    with False e r t resize_swapchain_rebuild_handle [OF assms(1) False] show ?thesis
      by (simp add: resize_swapchain_info_extent)
  qed
qed

lemma example_resize_first:
  "resize_swapchain example_settings (example_resize_env \<lparr>width = - 1, height = - 1\<rparr> 7)
     800 600 example_created = Inr example_resized"
  by code_simp

theorem resize_swapchain_undefined_extent_witness:
  "resize_swapchain example_settings (example_resize_env \<lparr>width = - 1, height = - 1\<rparr> 7)
     800 600 example_created = Inr example_resized
   \<and> clamp_u32 1 640 800 = 640 \<and> clamp_u32 1 4096 600 = 600
   \<and> extent example_created = \<lparr>width = - 1, height = - 1\<rparr>
   \<and> swapchain example_created = VK_NULL_HANDLE
   \<and> extent example_resized = \<lparr>width = 640, height = 600\<rparr>
   \<and> swapchain example_resized = 7
   \<and> drop (length (trace example_created)) (trace example_resized) =
       [GetPhysicalDeviceSurfaceCapabilitiesKHR 2 4,
        GetPhysicalDeviceSurfacePresentModesKHR 2 4,
        CreateSwapchainKHR 3
          (resize_swapchain_info example_settings
             (example_resize_env \<lparr>width = - 1, height = - 1\<rparr> 7)
             \<lparr>width = 640, height = 600\<rparr> example_created),
        attach_swapchain]
   \<and> sci_imageExtent
        (resize_swapchain_info example_settings
           (example_resize_env \<lparr>width = - 1, height = - 1\<rparr> 7)
           \<lparr>width = 640, height = 600\<rparr> example_created) = \<lparr>width = 640, height = 600\<rparr>
   \<and> created_extent (trace example_resized) = Some \<lparr>width = 640, height = 600\<rparr>"
proof -
  let ?env = "example_resize_env \<lparr>width = - 1, height = - 1\<rparr> 7"
  let ?t = "\<lparr>width = 640, height = 600\<rparr> :: VkExtent2D"
  have h2: "width (currentExtent (caps ?env)) = - 1"
    by (simp add: example_resize_env_def)
  have h3: "width (minImageExtent (caps ?env)) \<le> width (maxImageExtent (caps ?env))"
    by (simp add: example_resize_env_def)
  have h4: "height (minImageExtent (caps ?env)) \<le> height (maxImageExtent (caps ?env))"
    by (simp add: example_resize_env_def)
  have c: "clamp_u32 1 640 800 = 640 \<and> clamp_u32 1 4096 600 = 600"
    by (simp add: clamp_u32_def)
  then have h5: "?t =
           \<lparr>width = clamp_u32 (width (minImageExtent (caps ?env)))
                      (width (maxImageExtent (caps ?env))) 800,
            height = clamp_u32 (height (minImageExtent (caps ?env)))
                       (height (maxImageExtent (caps ?env))) 600\<rparr>"
    by (simp add: example_resize_env_def)
  have f: "extent example_created = \<lparr>width = - 1, height = - 1\<rparr>"
    "swapchain example_created = VK_NULL_HANDLE" "dev example_created = 3"
    "physical_dev example_created = 2" "surface example_created = 4"
    "new_swapchain ?env = 7"
    by code_simp+
  from f(1) have ne: "extent example_created \<noteq> ?t" by simp
  note w = resize_swapchain_undefined_extent [OF example_resize_first h2 h3 h4 h5]
  from w ne f
  have a: "extent example_resized = ?t"
    "swapchain example_resized = 7"
    "sci_imageExtent (resize_swapchain_info example_settings ?env ?t example_created) = ?t"
    "trace example_resized =
       trace example_created @
       [GetPhysicalDeviceSurfaceCapabilitiesKHR 2 4,
        GetPhysicalDeviceSurfacePresentModesKHR 2 4,
        CreateSwapchainKHR 3 (resize_swapchain_info example_settings ?env ?t example_created),
        attach_swapchain]"
    by simp_all
  from w a(2) f(2) have b: "created_extent (trace example_resized) = Some ?t"
    by simp
  show ?thesis
    using a b c f example_resize_first by simp
qed

text \<open>C8. After a call of \<open>resize_swapchain\<close> that returned, a second call whose
  capabilities and hints resolve to the same extent, and whose capability query
  succeeds, returns right after that query: it logs no \<open>vkCreateSwapchainKHR\<close>, no
  detach and no destroy, and the swapchain handle, the extent and every other field of
  the context are those the first call left.\<close>

theorem resize_swapchain_twice:
  assumes "resize_swapchain settings env1 w1 h1 st = Inr st1"
    and "resize_extent (caps env2) w2 h2 = resize_extent (caps env1) w1 h1"
    and "caps_res env2 = VK_SUCCESS"
  shows "resize_swapchain settings env2 w2 h2 st1 =
           Inr (emit [GetPhysicalDeviceSurfaceCapabilitiesKHR (physical_dev st1) (surface st1)] st1)"
proof -
  from resize_swapchain_extent [OF assms(1)] assms(2)
  have "width (extent st1) = width (resize_extent (caps env2) w2 h2)"
    and "height (extent st1) = height (resize_extent (caps env2) w2 h2)"
    by simp_all
  with assms(3) show ?thesis
    by (simp add: resize_swapchain_def assert_success_def Let_def)
qed

theorem resize_swapchain_twice_witness:
  "resize_swapchain example_settings (example_resize_env \<lparr>width = - 1, height = - 1\<rparr> 7)
     800 600 example_created = Inr example_resized
   \<and> resize_extent (caps (example_resize_env \<lparr>width = 640, height = 600\<rparr> 9)) 1024 768 =
       resize_extent (caps (example_resize_env \<lparr>width = - 1, height = - 1\<rparr> 7)) 800 600
   \<and> resize_swapchain example_settings (example_resize_env \<lparr>width = 640, height = 600\<rparr> 9)
       1024 768 example_resized =
       Inr (emit [GetPhysicalDeviceSurfaceCapabilitiesKHR 2 4] example_resized)
   \<and> swapchain example_resized = 7"
proof -
  let ?env1 = "example_resize_env \<lparr>width = - 1, height = - 1\<rparr> 7"
  let ?env2 = "example_resize_env \<lparr>width = 640, height = 600\<rparr> 9"
  have h2: "resize_extent (caps ?env2) 1024 768 = resize_extent (caps ?env1) 800 600"
    by (simp add: example_resize_env_def resize_extent_def)
  have h3: "caps_res ?env2 = VK_SUCCESS"
    by (simp add: example_resize_env_def)
  have a: "physical_dev example_resized = 2" by code_simp
  have b: "surface example_resized = 4" by code_simp
  have c: "swapchain example_resized = 7" by code_simp
  from resize_swapchain_twice [OF example_resize_first h2 h3]
  show ?thesis
    using h2 a b c by (simp add: example_resize_first)
qed

section \<open>Teardown order\<close>

lemma trace_destroy_back_buffers:
  "trace (destroy_back_buffers st) =
     trace st @ concat (map BackBuffer_dtor (backBuffers st)) @ delete_queue (acquireBuffers st)"
  by (simp add: destroy_back_buffers_def Let_def)

lemma trace_destroy_swapchain:
  "trace (destroy_swapchain st) =
     trace st @
     (if swapchain st \<noteq> VK_NULL_HANDLE
      then [detach_swapchain, DestroySwapchainKHR (dev st) (swapchain st)] else []) @
     [DestroySurfaceKHR (vk_instance st) (surface st)]"
  by (simp add: destroy_swapchain_def Let_def)

lemma destroy_swapchain_keeps:
  "backBuffers (destroy_swapchain st) = backBuffers st"
  "acquireBuffers (destroy_swapchain st) = acquireBuffers st"
  "dev (destroy_swapchain st) = dev st"
  by (simp_all add: destroy_swapchain_def Let_def)

lemma trace_destroy_context:
  assumes "dev st \<noteq> VK_NULL_HANDLE"
  shows "trace (destroy_context st) =
     trace st @ [DeviceWaitIdle (dev st)] @
     (if swapchain st \<noteq> VK_NULL_HANDLE
      then [detach_swapchain, DestroySwapchainKHR (dev st) (swapchain st)] else []) @
     [DestroySurfaceKHR (vk_instance st) (surface st), detach_shell] @
     concat (map BackBuffer_dtor (backBuffers st)) @ delete_queue (acquireBuffers st) @
     [DestroyDevice (dev st)]"
proof -
  let ?st2 = "destroy_swapchain (emit [DeviceWaitIdle (dev st)] st)"
  let ?st4 = "destroy_back_buffers (emit [detach_shell] ?st2)"
  have dev4: "dev ?st4 = dev st"
    by (simp add: destroy_back_buffers_def destroy_swapchain_keeps Let_def)
  have "trace (destroy_context st) = trace ?st4 @ [DestroyDevice (dev ?st4)]"
    using assms by (simp add: destroy_context_def Let_def)
  then show ?thesis
    by (simp add: dev4 trace_destroy_back_buffers trace_destroy_swapchain destroy_swapchain_keeps)
qed

text \<open>C5 (as amended). \<open>destroy_context\<close> on a live device with a swapchain makes
  its calls in the order: device wait-idle, consumer detach (\<open>detach_swapchain\<close>),
  swapchain destroy, surface destroy, then \<open>detach_shell\<close>, the destructors of the back
  buffers and tokens, and device destroy. A \<open>resize_swapchain\<close> that rebuilds an
  existing chain queries the surface, creates the new chain, and then detaches the
  consumer, waits for the device to idle and destroys the old chain, in this order,
  before attaching again; it destroys no surface. So the consumer is detached before
  the wait-idle in the rebuild, and after it in context destruction.\<close>

theorem teardown_order:
  "(dev st \<noteq> VK_NULL_HANDLE \<and> swapchain st \<noteq> VK_NULL_HANDLE \<longrightarrow>
      trace (destroy_context st) =
        trace st @
        [DeviceWaitIdle (dev st), detach_swapchain, DestroySwapchainKHR (dev st) (swapchain st),
         DestroySurfaceKHR (vk_instance st) (surface st), detach_shell] @
        concat (map BackBuffer_dtor (backBuffers st)) @ delete_queue (acquireBuffers st) @
        [DestroyDevice (dev st)])
   \<and> (resize_swapchain settings env w h st = Inr st' \<and> swapchain st \<noteq> VK_NULL_HANDLE
        \<and> extent st \<noteq> resize_extent (caps env) w h \<longrightarrow>
      trace st' =
        trace st @
        [GetPhysicalDeviceSurfaceCapabilitiesKHR (physical_dev st) (surface st),
         GetPhysicalDeviceSurfacePresentModesKHR (physical_dev st) (surface st),
         CreateSwapchainKHR (dev st)
           (resize_swapchain_info settings env (resize_extent (caps env) w h) st),
         detach_swapchain, DeviceWaitIdle (dev st), DestroySwapchainKHR (dev st) (swapchain st),
         attach_swapchain])"
proof (intro conjI impI)
  assume "dev st \<noteq> VK_NULL_HANDLE \<and> swapchain st \<noteq> VK_NULL_HANDLE"
  then show "trace (destroy_context st) =
        trace st @
        [DeviceWaitIdle (dev st), detach_swapchain, DestroySwapchainKHR (dev st) (swapchain st),
         DestroySurfaceKHR (vk_instance st) (surface st), detach_shell] @
        concat (map BackBuffer_dtor (backBuffers st)) @ delete_queue (acquireBuffers st) @
        [DestroyDevice (dev st)]"
    by (simp add: trace_destroy_context)
next
  assume a: "resize_swapchain settings env w h st = Inr st' \<and> swapchain st \<noteq> VK_NULL_HANDLE
        \<and> extent st \<noteq> resize_extent (caps env) w h"
  then have "resize_swapchain settings env w h st = Inr st'"
    and "extent st \<noteq> resize_extent (caps env) w h" by simp_all
  from trace_resize_rebuild [OF this] a
  show "trace st' =
        trace st @
        [GetPhysicalDeviceSurfaceCapabilitiesKHR (physical_dev st) (surface st),
         GetPhysicalDeviceSurfacePresentModesKHR (physical_dev st) (surface st),
         CreateSwapchainKHR (dev st)
           (resize_swapchain_info settings env (resize_extent (caps env) w h) st),
         detach_swapchain, DeviceWaitIdle (dev st), DestroySwapchainKHR (dev st) (swapchain st),
         attach_swapchain]"
    by simp
qed


lemma example_acquired_fields:
  "dev example_acquired = 3" "swapchain example_acquired = 7"
  "vk_instance example_acquired = 1" "surface example_acquired = 4"
  "physical_dev example_acquired = 2"
  "extent example_acquired = \<lparr>width = 640, height = 600\<rparr>"
  by code_simp+

text \<open>C5 as stated fails: in the log of \<open>destroy_context\<close> on the example context
  the consumer detach does not come before the device wait-idle; the wait-idle comes
  first.\<close>

theorem teardown_order_counterexample:
  "\<not> occurs_in_order
       [detach_swapchain, DeviceWaitIdle 3, DestroySwapchainKHR 3 7, DestroySurfaceKHR 1 4]
       (drop (length (trace example_acquired)) (trace (destroy_context example_acquired)))
   \<and> occurs_in_order
       [DeviceWaitIdle 3, detach_swapchain, DestroySwapchainKHR 3 7, DestroySurfaceKHR 1 4]
       (drop (length (trace example_acquired)) (trace (destroy_context example_acquired)))"
  by code_simp


lemma example_rebuild:
  "resize_swapchain example_settings (example_resize_env \<lparr>width = 320, height = 200\<rparr> 9) 0 0
     example_acquired = Inr example_rebuilt"
  by code_simp

theorem teardown_order_witness:
  "dev example_acquired \<noteq> VK_NULL_HANDLE \<and> swapchain example_acquired \<noteq> VK_NULL_HANDLE
   \<and> take 4 (drop (length (trace example_acquired)) (trace (destroy_context example_acquired))) =
       [DeviceWaitIdle 3, detach_swapchain, DestroySwapchainKHR 3 7, DestroySurfaceKHR 1 4]
   \<and> resize_swapchain example_settings (example_resize_env \<lparr>width = 320, height = 200\<rparr> 9) 0 0
       example_acquired = Inr example_rebuilt
   \<and> extent example_acquired \<noteq>
       resize_extent (caps (example_resize_env \<lparr>width = 320, height = 200\<rparr> 9)) 0 0
   \<and> drop (3 + length (trace example_acquired)) (trace example_rebuilt) =
       [detach_swapchain, DeviceWaitIdle 3, DestroySwapchainKHR 3 7, attach_swapchain]"
proof -
  let ?env = "example_resize_env \<lparr>width = 320, height = 200\<rparr> 9"
  have h1: "dev example_acquired \<noteq> VK_NULL_HANDLE \<and> swapchain example_acquired \<noteq> VK_NULL_HANDLE"
    by (simp add: example_acquired_fields)
  have h2: "extent example_acquired \<noteq> resize_extent (caps ?env) 0 0"
    by (simp add: example_acquired_fields example_resize_env_def resize_extent_def)
  from teardown_order [of example_acquired example_settings ?env 0 0 example_rebuilt]
    h1 h2 example_rebuild
  have "trace (destroy_context example_acquired) =
          trace example_acquired @
          [DeviceWaitIdle 3, detach_swapchain, DestroySwapchainKHR 3 7, DestroySurfaceKHR 1 4,
           detach_shell] @
          concat (map BackBuffer_dtor (backBuffers example_acquired)) @
          delete_queue (acquireBuffers example_acquired) @ [DestroyDevice 3]"
    and "trace example_rebuilt =
          trace example_acquired @
          [GetPhysicalDeviceSurfaceCapabilitiesKHR 2 4,
           GetPhysicalDeviceSurfacePresentModesKHR 2 4,
           CreateSwapchainKHR 3
             (resize_swapchain_info example_settings ?env (resize_extent (caps ?env) 0 0)
                example_acquired),
           detach_swapchain, DeviceWaitIdle 3, DestroySwapchainKHR 3 7, attach_swapchain]"
    by (simp_all add: example_acquired_fields)
  then show ?thesis
    using h1 h2 example_rebuild by simp
qed

section \<open>No-present mode\<close>

lemma headless_step:
  assumes "no_present settings"
    and "GetCurrentBackBuffer st = Inr cur"
    and "GetAcquireSemaphore cur \<noteq> VK_NULL_HANDLE"
    and "do_step settings x st = Inr st'"
  shows "\<exists>es. st' = emit es st \<and> filter is_acquire_event es = []"
proof (cases x)
  case (Acquire env tf)
  with assms have "st' = emit [] st"
    by (simp add: acquire_back_buffer_def)
  then show ?thesis by (intro exI [of _ "[]"]) simp
next
  case (Present env tf)
  with assms show ?thesis
    by (auto simp: present_back_buffer_def fake_present_def assert_success_def Let_def emit_emit
          split: if_splits sum.splits)
qed

lemma headless_run:
  assumes "no_present settings"
    and "GetCurrentBackBuffer st = Inr cur"
    and "GetAcquireSemaphore cur \<noteq> VK_NULL_HANDLE"
    and "run settings steps st = Inr st'"
  shows "\<exists>es. st' = emit es st \<and> filter is_acquire_event es = []"
  using assms(2,4)
proof (induction steps arbitrary: st)
  case Nil
  then have "st' = emit [] st" by simp
  then show ?case by (intro exI [of _ "[]"]) simp
next
  case (Cons x xs)
  from Cons.prems(2) obtain st1 where s1: "do_step settings x st = Inr st1"
    and r: "run settings xs st1 = Inr st'"
    by (auto split: sum.splits)
  from headless_step [OF assms(1) Cons.prems(1) assms(3) s1]
  obtain es1 where e1: "st1 = emit es1 st" "filter is_acquire_event es1 = []" by blast
  then have "GetCurrentBackBuffer st1 = Inr cur"
    using Cons.prems(1) by simp
  from Cons.IH [OF this r]
  obtain es2 where e2: "st' = emit es2 st1" "filter is_acquire_event es2 = []" by blast
  from e1 e2 have "st' = emit (es1 @ es2) st \<and> filter is_acquire_event (es1 @ es2) = []"
    by (simp add: emit_emit)
  then show ?case by blast
qed

text \<open>C6. With presentation disabled, once the current BackBuffer has a token attached
  (its acquire semaphore is not the null handle), \<open>acquire_back_buffer\<close> returns at
  once with the state untouched, and every sequence of acquire and present calls that
  returns leaves the current back-buffer index, the back buffers, the token queue and
  the acquired-frame counter as they were and logs no \<open>vkAcquireNextImageKHR\<close>.\<close>

theorem headless_acquire_short_circuits:
  assumes "no_present settings"
    and "GetCurrentBackBuffer st = Inr cur"
    and "GetAcquireSemaphore cur \<noteq> VK_NULL_HANDLE"
  shows "acquire_back_buffer settings env trainFrame st = Inr st
       \<and> (\<forall>steps st'. run settings steps st = Inr st' \<longrightarrow>
             currentBackBuffer st' = currentBackBuffer st
           \<and> backBuffers st' = backBuffers st
           \<and> acquireBuffers st' = acquireBuffers st
           \<and> acquiredFrameId st' = acquiredFrameId st
           \<and> filter is_acquire_event (trace st') = filter is_acquire_event (trace st))"
proof (intro conjI allI impI)
  show "acquire_back_buffer settings env trainFrame st = Inr st"
    using assms by (simp add: acquire_back_buffer_def)
next
  fix steps st'
  assume "run settings steps st = Inr st'"
  from headless_run [OF assms this]
  obtain es where "st' = emit es st" "filter is_acquire_event es = []" by blast
  then show "currentBackBuffer st' = currentBackBuffer st"
    and "backBuffers st' = backBuffers st"
    and "acquireBuffers st' = acquireBuffers st"
    and "acquiredFrameId st' = acquiredFrameId st"
    and "filter is_acquire_event (trace st') = filter is_acquire_event (trace st)"
    by simp_all
qed

lemma example_headless_run:
  "run example_headless example_headless_steps example_acquired = Inr example_headless_end"
  by code_simp

theorem headless_acquire_short_circuits_witness:
  "no_present example_headless
   \<and> currentBackBuffer example_acquired = 1
   \<and> (\<exists>cur. GetCurrentBackBuffer example_acquired = Inr cur \<and> GetAcquireSemaphore cur = 200)
   \<and> acquire_back_buffer example_headless (example_acquire_env VK_SUCCESS 2) False example_acquired
       = Inr example_acquired
   \<and> run example_headless example_headless_steps example_acquired = Inr example_headless_end
   \<and> currentBackBuffer example_headless_end = 1
   \<and> acquireBuffers example_headless_end = acquireBuffers example_acquired"
proof -
  let ?cur = "\<lparr>bb_imageIndex = 1,
          bb_acquireBuffer = Some \<lparr>ab_addr = 1, ab_semaphore = 200, ab_fence = 300, ab_dev = 3\<rparr>,
          bb_renderSemaphore = 101, bb_state = BACK_BUFFER_PREPARE, bb_dev = 3\<rparr>"
  have h1: "no_present example_headless"
    by (simp add: example_headless_def)
  have h3: "GetAcquireSemaphore ?cur = 200"
    by (simp add: GetAcquireSemaphore_def)
  then have h3': "GetAcquireSemaphore ?cur \<noteq> VK_NULL_HANDLE" by simp
  have c: "currentBackBuffer example_acquired = 1" by code_simp
  from headless_acquire_short_circuits [OF h1 example_acquired_current h3',
      of "example_acquire_env VK_SUCCESS 2" False] example_headless_run
  show ?thesis
    using h1 h3 c example_acquired_current by simp
qed

section \<open>Token conservation\<close>

lemma mset_map_filter_update:
  "i < length xs \<Longrightarrow>
     mset (List.map_filter f (xs[i := y])) + mset (case f (xs ! i) of None \<Rightarrow> [] | Some a \<Rightarrow> [a]) =
     mset (List.map_filter f xs) + mset (case f y of None \<Rightarrow> [] | Some a \<Rightarrow> [a])"
proof (induction xs arbitrary: i)
  case Nil
  then show ?case by simp
next
  case (Cons x xs)
  show ?case
  proof (cases i)
    case 0
    then show ?thesis by (simp split: option.splits)
  next
    case (Suc k)
    with Cons.prems have "k < length xs" by simp
    from Cons.IH [OF this] Suc show ?thesis
      by (simp split: option.splits)
  qed
qed

lemma map_filter_nth_mem:
  "i < length xs \<Longrightarrow> f (xs ! i) = Some a \<Longrightarrow> a \<in> set (List.map_filter f xs)"
  by (force simp: List.map_filter_def in_set_conv_nth)

lemma length_map_filter_le: "length (List.map_filter f xs) \<le> length xs"
  by (simp add: List.map_filter_def)

lemma distinct_map_filter_nth:
  assumes "distinct (map g (List.map_filter f xs))"
    and "i < length xs" and "j < length xs" and "i \<noteq> j"
    and "f (xs ! i) = Some a" and "f (xs ! j) = Some b"
  shows "g a \<noteq> g b"
  using assms
proof (induction xs arbitrary: i j)
  case Nil
  then show ?case by simp
next
  case (Cons x xs)
  show ?case
  proof (cases i)
    case 0
    with Cons.prems obtain k where k: "j = Suc k" "k < length xs" "f (xs ! k) = Some b"
      by (cases j) auto
    then have "b \<in> set (List.map_filter f xs)" by (simp add: map_filter_nth_mem)
    then have "g b \<in> g ` set (List.map_filter f xs)" by (rule imageI)
    with Cons.prems(1,5) 0 show ?thesis by auto
  next
    case (Suc i')
    show ?thesis
    proof (cases j)
      case 0
      from Suc Cons.prems have "a \<in> set (List.map_filter f xs)"
        by (simp add: map_filter_nth_mem)
      then have "g a \<in> g ` set (List.map_filter f xs)" by (rule imageI)
      with Cons.prems(1,6) 0 show ?thesis by auto
    next
      case (Suc j')
      with \<open>i = Suc i'\<close> Cons.prems have "distinct (map g (List.map_filter f xs))"
        and "i' < length xs" "j' < length xs" "i' \<noteq> j'" "f (xs ! i') = Some a" "f (xs ! j') = Some b"
        by (auto split: option.splits)
      then show ?thesis by (rule Cons.IH)
    qed
  qed
qed

lemma acquire_next_effect:
  assumes "acquire_next env st = Inr st'"
  shows "\<exists>acquireBuf rest.
           acquireBuffers st = acquireBuf # rest
         \<and> unat (acquire_index env) < length (backBuffers st)
         \<and> currentBackBuffer st' = acquire_index env
         \<and> backBuffers st' =
             (backBuffers st)[unat (acquire_index env) :=
                snd (SetAcquireBuffer (acquire_index env) acquireBuf
                       (backBuffers st ! unat (acquire_index env)))]
         \<and> acquireBuffers st' =
             rest @ (case bb_acquireBuffer (backBuffers st ! unat (acquire_index env)) of
                       None \<Rightarrow> [] | Some old \<Rightarrow> [old])"
  using assms
  by (auto simp: acquire_next_def assert_success_def SetAcquireBuffer_def Let_def
        split: list.splits if_splits option.splits)

lemma acquire_next_tokens:
  assumes "acquire_next env st = Inr st'"
  shows "mset (tokens st') = mset (tokens st)"
proof -
  let ?i = "unat (acquire_index env)"
  from acquire_next_effect [OF assms] obtain acquireBuf rest where
    q: "acquireBuffers st = acquireBuf # rest"
    and i: "?i < length (backBuffers st)"
    and b: "backBuffers st' =
             (backBuffers st)[?i := snd (SetAcquireBuffer (acquire_index env) acquireBuf
                                           (backBuffers st ! ?i))]"
    and q': "acquireBuffers st' =
             rest @ (case bb_acquireBuffer (backBuffers st ! ?i) of None \<Rightarrow> [] | Some old \<Rightarrow> [old])"
    by blast
  from mset_map_filter_update [OF i, of bb_acquireBuffer
      "snd (SetAcquireBuffer (acquire_index env) acquireBuf (backBuffers st ! ?i))"]
  have "mset (borrowed st') +
          mset (case bb_acquireBuffer (backBuffers st ! ?i) of None \<Rightarrow> [] | Some a \<Rightarrow> [a]) =
        mset (borrowed st) + {#acquireBuf#}"
    by (simp add: borrowed_def b SetAcquireBuffer_def)
  then show ?thesis
    by (simp add: tokens_def q q' ac_simps)
qed

lemma acquire_next_borrowed:
  assumes "acquire_next env st = Inr st'"
  shows "borrowed st' \<noteq> []" and "length (backBuffers st') = length (backBuffers st)"
proof -
  let ?i = "unat (acquire_index env)"
  from acquire_next_effect [OF assms] obtain acquireBuf rest where
    i: "?i < length (backBuffers st)"
    and b: "backBuffers st' =
             (backBuffers st)[?i := snd (SetAcquireBuffer (acquire_index env) acquireBuf
                                           (backBuffers st ! ?i))]"
    by blast
  from i b have "bb_acquireBuffer (backBuffers st' ! ?i) = Some acquireBuf"
    by (simp add: SetAcquireBuffer_def)
  with i b have "acquireBuf \<in> set (borrowed st')"
    unfolding borrowed_def by (intro map_filter_nth_mem [where i = ?i]) simp_all
  then show "borrowed st' \<noteq> []" by auto
  from b show "length (backBuffers st') = length (backBuffers st)" by simp
qed

lemma acquire_back_buffer_tokens:
  assumes "acquire_back_buffer settings env tf st = Inr st'"
  shows "mset (tokens st') = mset (tokens st)"
    and "borrowed st' \<noteq> []"
    and "length (backBuffers st') = length (backBuffers st)"
proof -
  have "(\<exists>cur. GetCurrentBackBuffer st = Inr cur \<and> GetAcquireSemaphore cur \<noteq> VK_NULL_HANDLE
            \<and> st' = st)
        \<or> acquire_next env st = Inr st'"
  proof (cases "no_present settings")
    case False
    with assms show ?thesis by (simp add: acquire_back_buffer_def)
  next
    case True
    show ?thesis
    proof (cases "GetCurrentBackBuffer st")
      case (Inl e)
      with True assms show ?thesis by (simp add: acquire_back_buffer_def)
    next
      case (Inr cur)
      with True assms show ?thesis
        by (cases "GetAcquireSemaphore cur = VK_NULL_HANDLE") (simp_all add: acquire_back_buffer_def)
    qed
  qed
  then consider (skip) cur where "GetCurrentBackBuffer st = Inr cur"
      "GetAcquireSemaphore cur \<noteq> VK_NULL_HANDLE" "st' = st"
    | (fresh) "acquire_next env st = Inr st'"
    by blast
  then have "mset (tokens st') = mset (tokens st) \<and> borrowed st' \<noteq> []
       \<and> length (backBuffers st') = length (backBuffers st)"
  proof cases
    case skip
    from skip(1) have i: "unat (currentBackBuffer st) < length (backBuffers st)"
      and c: "cur = backBuffers st ! unat (currentBackBuffer st)"
      by (auto simp: GetCurrentBackBuffer_def split: if_splits)
    from skip(2) obtain a where "bb_acquireBuffer cur = Some a"
      by (auto simp: GetAcquireSemaphore_def split: option.splits)
    with i c have "a \<in> set (borrowed st)"
      unfolding borrowed_def by (intro map_filter_nth_mem [where i = "unat (currentBackBuffer st)"]) simp_all
    with skip(3) show ?thesis by auto
  next
    case fresh
    then show ?thesis
      by (simp add: acquire_next_tokens acquire_next_borrowed)
  qed
  then show "mset (tokens st') = mset (tokens st)"
    and "borrowed st' \<noteq> []"
    and "length (backBuffers st') = length (backBuffers st)"
    by simp_all
qed

lemma borrowed_state_update:
  assumes "i < length bbs" and "bb_acquireBuffer y = bb_acquireBuffer (bbs ! i)"
  shows "List.map_filter bb_acquireBuffer (bbs[i := y]) = List.map_filter bb_acquireBuffer bbs"
proof -
  have "map bb_acquireBuffer (bbs[i := y]) = map bb_acquireBuffer bbs"
    using assms by (simp add: map_update list_update_same_conv)
  moreover have "List.map_filter bb_acquireBuffer zs = List.map_filter id (map bb_acquireBuffer zs)" for zs
    by (induction zs) (simp_all split: option.splits)
  ultimately show ?thesis by metis
qed

lemma present_back_buffer_tokens:
  assumes "present_back_buffer settings env tf st = Inr st'"
  shows "borrowed st' = borrowed st"
    and "acquireBuffers st' = acquireBuffers st"
    and "length (backBuffers st') = length (backBuffers st)"
  using assms
  by (auto simp: present_back_buffer_def fake_present_def GetCurrentBackBuffer_def
        assert_success_def Let_def borrowed_def borrowed_state_update
        setBufferCanceled_def setBufferInSwapchain_def
        split: if_splits sum.splits)


lemma do_step_tokens:
  assumes "do_step settings x st = Inr st'"
  shows "mset (tokens st') = mset (tokens st)"
    and "length (backBuffers st') = length (backBuffers st)"
    and "borrowed st \<noteq> [] \<or> (\<exists>env tf. x = Acquire env tf) \<longrightarrow> borrowed st' \<noteq> []"
proof -
  show "mset (tokens st') = mset (tokens st)"
  proof (cases x)
    case (Acquire env tf)
    with assms show ?thesis by (simp add: acquire_back_buffer_tokens)
  next
    case (Present env tf)
    with assms show ?thesis by (simp add: tokens_def present_back_buffer_tokens)
  qed
  show "length (backBuffers st') = length (backBuffers st)"
    using assms
    by (cases x) (simp_all add: acquire_back_buffer_tokens present_back_buffer_tokens)
  show "borrowed st \<noteq> [] \<or> (\<exists>env tf. x = Acquire env tf) \<longrightarrow> borrowed st' \<noteq> []"
    using assms
    by (cases x) (simp_all add: acquire_back_buffer_tokens present_back_buffer_tokens)
qed

lemma run_tokens:
  assumes "run settings steps st = Inr st'"
  shows "mset (tokens st') = mset (tokens st)
       \<and> length (backBuffers st') = length (backBuffers st)
       \<and> (borrowed st \<noteq> [] \<or> (\<exists>env tf. Acquire env tf \<in> set steps) \<longrightarrow> borrowed st' \<noteq> [])"
  using assms
proof (induction steps arbitrary: st)
  case Nil
  then show ?case by simp
next
  case (Cons x xs)
  from Cons.prems obtain st1 where s1: "do_step settings x st = Inr st1"
    and r: "run settings xs st1 = Inr st'"
    by (auto split: sum.splits)
  note a = do_step_tokens [OF s1] and b = Cons.IH [OF r]
  have "mset (tokens st') = mset (tokens st)" using a(1) b by simp
  moreover have "length (backBuffers st') = length (backBuffers st)" using a(2) b by simp
  moreover have "borrowed st \<noteq> [] \<or> (\<exists>env tf. Acquire env tf \<in> set (x # xs))
                   \<longrightarrow> borrowed st' \<noteq> []"
    using a(3) b by auto
  ultimately show ?case by blast
qed

lemma tokens_length:
  "length (acquireBuffers st) + length (borrowed st) = size (mset (tokens st))"
  by (simp add: tokens_def)

lemma tokens_distinct_borrowed:
  assumes "distinct (map ab_addr (tokens st))"
    and "i < length (backBuffers st)" and "j < length (backBuffers st)" and "i \<noteq> j"
    and "bb_acquireBuffer (backBuffers st ! i) = Some a"
    and "bb_acquireBuffer (backBuffers st ! j) = Some b"
  shows "ab_addr a \<noteq> ab_addr b"
proof -
  from assms(1) have "distinct (map ab_addr (List.map_filter bb_acquireBuffer (backBuffers st)))"
    by (simp add: tokens_def borrowed_def)
  from distinct_map_filter_nth [OF this assms(2-6)] show ?thesis .
qed

lemma tokens_distinct_queue:
  assumes "distinct (map ab_addr (tokens st))"
    and "i < length (backBuffers st)"
    and "bb_acquireBuffer (backBuffers st ! i) = Some a"
  shows "ab_addr a \<notin> ab_addr ` set (acquireBuffers st)"
proof -
  from assms(2,3) have "a \<in> set (borrowed st)"
    unfolding borrowed_def by (rule map_filter_nth_mem)
  with assms(1) show ?thesis
    by (auto simp: tokens_def)
qed

text \<open>C1. Every sequence of acquire and present calls that returns leaves the
  multiset of tokens, queued or attached to a back buffer, as it was, so the number of
  queued tokens plus the number of attached tokens is constant. If the token addresses
  were pairwise distinct before (as they are after \<open>create_back_buffers\<close>), they are
  afterwards: no token is attached to two back buffers, and none is attached and
  queued at once. A call of \<open>acquire_back_buffer\<close> that returns, other than the
  early return of no-present mode with a token already attached, took the front token
  of the queue, attached it to the back buffer of the image index, and appended the
  token this entry held before, if any, at the back of the queue.\<close>

theorem token_conservation:
  "(run settings steps st = Inr st' \<longrightarrow>
      length (acquireBuffers st') + length (borrowed st') =
        length (acquireBuffers st) + length (borrowed st)
    \<and> mset (tokens st') = mset (tokens st)
    \<and> (distinct (map ab_addr (tokens st)) \<longrightarrow>
         distinct (map ab_addr (tokens st'))
       \<and> (\<forall>i j a b. i < length (backBuffers st') \<and> j < length (backBuffers st') \<and> i \<noteq> j
             \<and> bb_acquireBuffer (backBuffers st' ! i) = Some a
             \<and> bb_acquireBuffer (backBuffers st' ! j) = Some b \<longrightarrow> ab_addr a \<noteq> ab_addr b)
       \<and> (\<forall>i a. i < length (backBuffers st')
             \<and> bb_acquireBuffer (backBuffers st' ! i) = Some a \<longrightarrow>
             ab_addr a \<notin> ab_addr ` set (acquireBuffers st'))))
   \<and> (acquire_back_buffer settings env trainFrame st = Inr st1
        \<and> (\<not> no_present settings
             \<or> (\<forall>cur. GetCurrentBackBuffer st = Inr cur \<longrightarrow>
                   GetAcquireSemaphore cur = VK_NULL_HANDLE)) \<longrightarrow>
        (\<exists>acquireBuf rest.
            acquireBuffers st = acquireBuf # rest
          \<and> unat (acquire_index env) < length (backBuffers st)
          \<and> bb_acquireBuffer (backBuffers st1 ! unat (acquire_index env)) = Some acquireBuf
          \<and> acquireBuffers st1 =
              rest @ (case bb_acquireBuffer (backBuffers st ! unat (acquire_index env)) of
                        None \<Rightarrow> [] | Some old \<Rightarrow> [old])))"
proof (intro conjI impI)
  assume r: "run settings steps st = Inr st'"
  from run_tokens [OF r] show m: "mset (tokens st') = mset (tokens st)" by simp
  then show "length (acquireBuffers st') + length (borrowed st') =
        length (acquireBuffers st) + length (borrowed st)"
    by (simp add: tokens_length)
  assume "distinct (map ab_addr (tokens st))"
  moreover from m have "mset (map ab_addr (tokens st')) = mset (map ab_addr (tokens st))"
    by simp
  ultimately show d: "distinct (map ab_addr (tokens st'))"
    by (metis mset_eq_imp_distinct_iff)
  from d show "\<forall>i j a b. i < length (backBuffers st') \<and> j < length (backBuffers st') \<and> i \<noteq> j
             \<and> bb_acquireBuffer (backBuffers st' ! i) = Some a
             \<and> bb_acquireBuffer (backBuffers st' ! j) = Some b \<longrightarrow> ab_addr a \<noteq> ab_addr b"
    using tokens_distinct_borrowed by blast
  from d show "\<forall>i a. i < length (backBuffers st')
             \<and> bb_acquireBuffer (backBuffers st' ! i) = Some a \<longrightarrow>
             ab_addr a \<notin> ab_addr ` set (acquireBuffers st')"
    using tokens_distinct_queue by blast
next
  assume "acquire_back_buffer settings env trainFrame st = Inr st1
        \<and> (\<not> no_present settings
             \<or> (\<forall>cur. GetCurrentBackBuffer st = Inr cur \<longrightarrow>
                   GetAcquireSemaphore cur = VK_NULL_HANDLE))"
  then have a: "acquire_next env st = Inr st1"
    by (auto simp: acquire_back_buffer_def split: if_splits sum.splits)
  from acquire_next_effect [OF a] obtain acquireBuf rest where
    q: "acquireBuffers st = acquireBuf # rest"
    and i: "unat (acquire_index env) < length (backBuffers st)"
    and b: "backBuffers st1 =
             (backBuffers st)[unat (acquire_index env) :=
                snd (SetAcquireBuffer (acquire_index env) acquireBuf
                       (backBuffers st ! unat (acquire_index env)))]"
    and q': "acquireBuffers st1 =
             rest @ (case bb_acquireBuffer (backBuffers st ! unat (acquire_index env)) of
                       None \<Rightarrow> [] | Some old \<Rightarrow> [old])"
    by blast
  from i b have "bb_acquireBuffer (backBuffers st1 ! unat (acquire_index env)) = Some acquireBuf"
    by (simp add: SetAcquireBuffer_def)
  with q i q' show "\<exists>acquireBuf rest.
            acquireBuffers st = acquireBuf # rest
          \<and> unat (acquire_index env) < length (backBuffers st)
          \<and> bb_acquireBuffer (backBuffers st1 ! unat (acquire_index env)) = Some acquireBuf
          \<and> acquireBuffers st1 =
              rest @ (case bb_acquireBuffer (backBuffers st ! unat (acquire_index env)) of
                        None \<Rightarrow> [] | Some old \<Rightarrow> [old])"
    by blast
qed


lemma example_run_five:
  "run example_settings (cycles example_five) example_resized = Inr example_after_five"
  by code_simp

lemma example_reacquire:
  "acquire_back_buffer example_settings (example_acquire_env VK_SUCCESS 1) False example_acquired =
     Inr example_reacquired"
  by code_simp

theorem token_conservation_witness:
  "run example_settings (cycles example_five) example_resized = Inr example_after_five
   \<and> distinct (map ab_addr (tokens example_resized))
   \<and> length (acquireBuffers example_resized) + length (borrowed example_resized) = 4
   \<and> length (acquireBuffers example_after_five) + length (borrowed example_after_five) = 4
   \<and> distinct (map ab_addr (tokens example_after_five))
   \<and> \<not> no_present example_settings
   \<and> acquire_back_buffer example_settings (example_acquire_env VK_SUCCESS 1) False
       example_acquired = Inr example_reacquired
   \<and> map ab_addr (acquireBuffers example_acquired) = [2, 3, 4]
   \<and> map ab_addr (acquireBuffers example_reacquired) = [3, 4, 1]"
proof -
  have d: "distinct (map ab_addr (tokens example_resized))" by code_simp
  have l: "length (acquireBuffers example_resized) + length (borrowed example_resized) = 4"
    by code_simp
  have q: "map ab_addr (acquireBuffers example_acquired) = [2, 3, 4]" by code_simp
  have np: "\<not> no_present example_settings" by (simp add: example_settings_def)
  have old: "bb_acquireBuffer
               (backBuffers example_acquired ! unat (acquire_index (example_acquire_env VK_SUCCESS 1))) =
             Some \<lparr>ab_addr = 1, ab_semaphore = 200, ab_fence = 300, ab_dev = 3\<rparr>"
    by code_simp
  from token_conservation [of example_settings "cycles example_five" example_resized
      example_after_five]
    example_run_five d l
  have five: "length (acquireBuffers example_after_five) + length (borrowed example_after_five) = 4"
    "distinct (map ab_addr (tokens example_after_five))"
    by simp_all
  from token_conservation [of example_settings "[]" example_acquired example_acquired
      "example_acquire_env VK_SUCCESS 1" False example_reacquired]
    example_reacquire np
  obtain acquireBuf rest where "acquireBuffers example_acquired = acquireBuf # rest"
    and "acquireBuffers example_reacquired =
           rest @ (case bb_acquireBuffer (backBuffers example_acquired !
                           unat (acquire_index (example_acquire_env VK_SUCCESS 1))) of
                     None \<Rightarrow> [] | Some old \<Rightarrow> [old])"
    by auto
  with q old have q': "map ab_addr (acquireBuffers example_reacquired) = [3, 4, 1]"
    by simp
  show ?thesis
    using example_run_five example_reacquire d l q q' np five by simp
qed

section \<open>Back-buffer creation\<close>

lemma create_each_shape:
  "create_each d r i bbs = Inr (bbs', es) \<Longrightarrow>
     length bbs' = length bbs \<and> map bb_acquireBuffer bbs' = map bb_acquireBuffer bbs"
proof (induction bbs arbitrary: i bbs' es)
  case Nil
  then show ?case by simp
next
  case (Cons b bs)
  from Cons.prems obtain b' es1 bs' es2 where
    c: "BackBuffer_Create d (r i) b = Inr (b', es1)"
    and rest: "create_each d r (Suc i) bs = Inr (bs', es2)"
    and res: "bbs' = b' # bs'"
    by (auto split: sum.splits prod.splits)
  from c have "bb_acquireBuffer b' = bb_acquireBuffer b"
    by (auto simp: BackBuffer_Create_def assert_success_def Let_def split: if_splits)
  with Cons.IH [OF rest] res show ?case by simp
qed

lemma new_acquire_buffers_shape:
  "new_acquire_buffers env i n st = Inr st' \<Longrightarrow>
     backBuffers st' = backBuffers st
   \<and> (\<exists>new. acquireBuffers st' = acquireBuffers st @ new
          \<and> map ab_addr new = [heap_next st ..< heap_next st + nat (n - i)])"
proof (induction env i n st rule: new_acquire_buffers.induct)
  case (1 env i n st)
  show ?case
  proof (cases "i < n")
    case False
    with "1.prems" have "st' = st" by (simp add: new_acquire_buffers.simps)
    with False show ?thesis by simp
  next
    case True
    let ?c = "AcquireBuffer_Create (dev st) (acquire_sem env (nat i)) (acquire_fence env (nat i))
                (AcquireBuffer_ctor (heap_next st))"
    from True "1.prems" obtain ab es where c: "?c = Inr (ab, es)"
      and r: "new_acquire_buffers env (i + 1) n
                (emit es (st\<lparr>heap_next := Suc (heap_next st),
                              acquireBuffers := acquireBuffers st @ [ab]\<rparr>)) = Inr st'"
      by (subst (asm) new_acquire_buffers.simps) (auto split: sum.splits prod.splits)
    from c have addr: "ab_addr ab = heap_next st"
      by (auto simp: AcquireBuffer_Create_def AcquireBuffer_ctor_def assert_success_def Let_def
            split: if_splits)
    from "1.IH" [OF True c refl r] obtain new where
      b: "backBuffers st' = backBuffers st"
      and q: "acquireBuffers st' = (acquireBuffers st @ [ab]) @ new"
      and a: "map ab_addr new = [Suc (heap_next st) ..< Suc (heap_next st) + nat (n - (i + 1))]"
      by auto
    from True have n: "nat (n - i) = Suc (nat (n - (i + 1)))" by simp
    have "[heap_next st ..< heap_next st + nat (n - i)] =
            heap_next st # [Suc (heap_next st) ..< Suc (heap_next st) + nat (n - (i + 1))]"
      unfolding n by (subst upt_conv_Cons) simp_all
    with addr a have "map ab_addr (ab # new) = [heap_next st ..< heap_next st + nat (n - i)]"
      by (simp only: list.map)
    with b q show ?thesis by (intro conjI exI [of _ "ab # new"]) simp_all
  qed
qed

lemma map_filter_all_None:
  "\<forall>x\<in>set xs. f x = None \<Longrightarrow> List.map_filter f xs = []"
  by (induction xs) simp_all

lemma create_back_buffers_shape:
  assumes "create_back_buffers settings env st0 = Inr st"
    and "backBuffers st0 = []" and "acquireBuffers st0 = []"
  shows "0 \<le> back_buffer_count settings + 1
       \<and> length (backBuffers st) = nat (back_buffer_count settings + 1)
       \<and> length (acquireBuffers st) = nat (back_buffer_count settings + 2)
       \<and> borrowed st = []
       \<and> distinct (map ab_addr (tokens st))"
proof -
  let ?n = "back_buffer_count settings + 1"
  from assms(1) have pos: "0 \<le> ?n" and hi: "\<not> ?n > INT_MAX" "\<not> ?n + 1 > INT_MAX"
    by (auto simp: create_back_buffers_def vector_resize_def Let_def
          split: if_splits sum.splits prod.splits)
  with assms(2) have vr: "vector_resize ?n (backBuffers st0) =
      Inr (replicate (nat ?n) BackBuffer_ctor, [])"
    by (simp add: vector_resize_def)
  with assms(1) hi obtain bbs' es1 st1 where
    ce: "create_each (dev st0) (render_sem env) 0 (replicate (nat ?n) BackBuffer_ctor) = Inr (bbs', es1)"
    and na: "new_acquire_buffers env 0 (?n + 1) (emit ([] @ es1) (st0\<lparr>backBuffers := bbs'\<rparr>)) = Inr st1"
    and st: "st = st1\<lparr>currentBackBuffer := 0\<rparr>"
    by (auto simp: create_back_buffers_def Let_def split: sum.splits prod.splits)
  from create_each_shape [OF ce] have len: "length bbs' = nat ?n"
    and none: "map bb_acquireBuffer bbs' = replicate (nat ?n) None"
    by (simp_all add: BackBuffer_ctor_def)
  from new_acquire_buffers_shape [OF na] assms(3) obtain new where
    b: "backBuffers st1 = bbs'"
    and q: "acquireBuffers st1 = new"
    and a: "map ab_addr new = [heap_next st0 ..< heap_next st0 + nat (?n + 1)]"
    by auto
  have "set (map bb_acquireBuffer bbs') \<subseteq> {None}"
    unfolding none by auto
  then have "\<forall>x\<in>set bbs'. bb_acquireBuffer x = None" by auto
  then have "List.map_filter bb_acquireBuffer bbs' = []"
    by (rule map_filter_all_None)
  then have bor: "borrowed st = []"
    by (simp add: borrowed_def st b)
  from a have "length new = nat (?n + 1)"
    by (metis length_map length_upt add_diff_cancel_left')
  moreover from a have "distinct (map ab_addr new)" by simp
  ultimately show ?thesis
    using pos len bor by (simp add: st b q tokens_def add.commute)
qed

lemma cycles_has_acquire:
  assumes "envs \<noteq> []"
  shows "\<exists>env tf. Acquire env tf \<in> set (cycles envs)"
proof -
  from assms obtain a p rest where "envs = (a, p) # rest"
    by (cases envs) auto
  then have "Acquire a False \<in> set (cycles envs)" by simp
  then show ?thesis by blast
qed

text \<open>C4 (as amended). For a configured back-buffer count of 2, \<open>create_back_buffers\<close>
  on a context without back buffers and tokens produces exactly 3 BackBuffer entries
  and a queue of exactly 4 tokens, none attached. After 5 acquire/present cycles that
  return, the queued and the attached tokens are 4 together, and between 1 and 3 of
  them are attached, so that between 1 and 3 are queued: the queue does not return to
  its initial length.\<close>

theorem scenario_A:
  assumes "back_buffer_count settings = 2"
    and "backBuffers st0 = []" and "acquireBuffers st0 = []"
    and "create_back_buffers settings env st0 = Inr st"
  shows "length (backBuffers st) = 3
       \<and> length (acquireBuffers st) = 4
       \<and> borrowed st = []
       \<and> (\<forall>st1 envs st'.
             backBuffers st1 = backBuffers st \<and> acquireBuffers st1 = acquireBuffers st
           \<and> length envs = 5 \<and> run settings (cycles envs) st1 = Inr st' \<longrightarrow>
             length (acquireBuffers st') + length (borrowed st') = 4
           \<and> 1 \<le> length (borrowed st') \<and> length (borrowed st') \<le> 3
           \<and> 1 \<le> length (acquireBuffers st') \<and> length (acquireBuffers st') \<le> 3)"
proof -
  from create_back_buffers_shape [OF assms(4,2,3)] assms(1)
  have bb: "length (backBuffers st) = 3" and q: "length (acquireBuffers st) = 4"
    and bor: "borrowed st = []"
    by simp_all
  have "length (acquireBuffers st') + length (borrowed st') = 4
           \<and> 1 \<le> length (borrowed st') \<and> length (borrowed st') \<le> 3
           \<and> 1 \<le> length (acquireBuffers st') \<and> length (acquireBuffers st') \<le> 3"
    if same: "backBuffers st1 = backBuffers st" "acquireBuffers st1 = acquireBuffers st"
      and five: "length envs = 5" and r: "run settings (cycles envs) st1 = Inr st'"
    for st1 envs st'
  proof -
    from same bor have t1: "size (mset (tokens st1)) = 4"
      by (simp add: tokens_def borrowed_def q)
    from five have "envs \<noteq> []" by auto
    from run_tokens [OF r] cycles_has_acquire [OF this]
    have m: "mset (tokens st') = mset (tokens st1)"
      and l: "length (backBuffers st') = length (backBuffers st1)"
      and ne: "borrowed st' \<noteq> []"
      by blast+
    from m t1 have sum: "length (acquireBuffers st') + length (borrowed st') = 4"
      by (simp add: tokens_length)
    from ne have lo: "1 \<le> length (borrowed st')"
      by (cases "borrowed st'") simp_all
    have "length (borrowed st') \<le> length (backBuffers st')"
      unfolding borrowed_def by (rule length_map_filter_le)
    with l same bb have hi: "length (borrowed st') \<le> 3" by simp
    from sum lo hi show ?thesis by arith
  qed
  with bb q bor show ?thesis by blast
qed

lemma example_create:
  "create_back_buffers example_settings example_create_env example_ctx = Inr example_created"
  by code_simp

theorem scenario_A_witness:
  "back_buffer_count example_settings = 2
   \<and> create_back_buffers example_settings example_create_env example_ctx = Inr example_created
   \<and> length (backBuffers example_created) = 3
   \<and> length (acquireBuffers example_created) = 4
   \<and> length example_five = 5
   \<and> run example_settings (cycles example_five) example_resized = Inr example_after_five
   \<and> length (acquireBuffers example_after_five) + length (borrowed example_after_five) = 4
   \<and> length (acquireBuffers example_after_five) \<le> 3"
proof -
  have h1: "back_buffer_count example_settings = 2" by (simp add: example_settings_def)
  have h2: "backBuffers example_ctx = []" by (simp add: example_ctx_def)
  have h3: "acquireBuffers example_ctx = []" by (simp add: example_ctx_def)
  have s1: "backBuffers example_resized = backBuffers example_created" by code_simp
  have s2: "acquireBuffers example_resized = acquireBuffers example_created" by code_simp
  have five: "length example_five = 5" by (simp add: example_five_def)
  from scenario_A [OF h1 h2 h3 example_create] s1 s2 five example_run_five
  show ?thesis
    using h1 example_create by blast
qed

text \<open>C4 as stated fails: with a back-buffer count of 2 the queue holds 4 tokens, not
  5, after creation, and after five cycles over the image indices 0, 1, 2, 0, 1 it
  holds 1.\<close>

theorem scenario_A_counterexample:
  "back_buffer_count example_settings = 2
   \<and> create_back_buffers example_settings example_create_env example_ctx = Inr example_created
   \<and> length (acquireBuffers example_created) = 4
   \<and> length (acquireBuffers example_created) \<noteq> 5
   \<and> run example_settings (cycles example_five) example_resized = Inr example_after_five
   \<and> length (acquireBuffers example_after_five) = 1
   \<and> length (acquireBuffers example_after_five) \<noteq> 5"
  by code_simp

end
